theory Spec2Isabelle
  imports Main "HOL-Library.Word" "HOL-Library.Signed_Division" "HOL-Library.Multiset" "HOL-Library.AList"
begin

section \<open>Data model\<close>

text \<open>
  Go's \<^verbatim>\<open>int64\<close> is a 64-bit word: \<open>+\<close> and \<open>-\<close> wrap around, \<open>sint\<close> reads the
  signed value and \<open><s\<close> is the signed comparison. A pointer \<^verbatim>\<open>*models.File\<close> is an
  address into an explicit heap of File values, because \<^verbatim>\<open>saveSession\<close> updates a File
  through the pointer it finds in the \<^verbatim>\<open>Files\<close> map.
\<close>

type_synonym int64 = "64 word"
type_synonym addr = nat

record File =
  Name :: string
  Repository :: string
  Filetype :: string
  Path :: string
  OpenedAt :: int64
  ClosedAt :: int64
  DurationMs :: int64

text \<open>
  \<^verbatim>\<open>models.Session\<close>. \<open>CurrentFile\<close> is a nullable pointer, \<open>OpenFiles\<close> a slice of
  pointers, \<open>Files\<close> a Go map from path to pointer, kept as an association list with
  one entry per key (an entry is only ever added for a key that is absent). The field
  \<^verbatim>\<open>DurationMs\<close> of the session is \<open>SessionDurationMs\<close> here, since \<open>DurationMs\<close> is the
  field of File.
\<close>

record Session =
  StartedAt :: int64
  EndedAt :: int64
  SessionDurationMs :: int64
  OS :: string
  Editor :: string
  CurrentFile :: "addr option"
  OpenFiles :: "addr list"
  Files :: "(string \<times> addr) list"

text \<open>
  \<^verbatim>\<open>shared.Event\<close>, with the fields the engine reads: \<^verbatim>\<open>Id\<close>, \<^verbatim>\<open>OS\<close>, \<^verbatim>\<open>Editor\<close> and
  \<^verbatim>\<open>Path\<close>, each with the prefix \<open>Event\<close>.
\<close>

record Event =
  EventId :: string
  EventOS :: string
  EventEditor :: string
  EventPath :: string

text \<open>What \<^verbatim>\<open>MetadataReader.Read\<close> returns for a path it can resolve.\<close>

record FileMetadata =
  Filename :: string
  RepositoryName :: string
  MetaFiletype :: string

text \<open>
  The \<^verbatim>\<open>app\<close> struct together with its collaborators. The injected clock and the
  system wall clock are two independent sequences of readings, each with a counter of
  the calls made so far; \<open>reader\<close> is the metadata reader (\<open>None\<close> is its error);
  \<open>storageErr n\<close> tells whether the \<open>n\<close>-th call of \<^verbatim>\<open>storage.Save\<close> returns an
  error, \<open>saved\<close> lists the sessions handed to \<^verbatim>\<open>Save\<close> in call order and
  \<open>errorsLogged\<close> counts the calls of \<^verbatim>\<open>log.PrintError\<close>; debug and info logging is
  left out. \<open>heap\<close> holds the Files behind the pointers and \<open>nextAddr\<close> is the address
  of the next File allocated. The mutex is not part of the state: the model is
  sequential, each function below is one operation run from start to end.
\<close>

record app =
  clock :: "nat \<Rightarrow> int64"
  clockCalls :: nat
  wallClock :: "nat \<Rightarrow> int64"
  wallCalls :: nat
  reader :: "string \<Rightarrow> FileMetadata option"
  storageErr :: "nat \<Rightarrow> bool"
  saved :: "Session list"
  errorsLogged :: nat
  activeClientId :: string
  lastHeartbeat :: int64
  session :: "Session option"
  heap :: "addr \<Rightarrow> File"
  nextAddr :: addr

text \<open>
  Modelled from the spec: \<^verbatim>\<open>logger.PrintFatal\<close> is not among the sources; the spec says
  that the fatal condition halts the process instead of returning an error, so
  \<open>Fatal a\<close> is the process stopped in state \<open>a\<close>. The other way an operation can fail to
  return is \<open>NilPointer\<close>, Go's panic on a dereference of a nil \<^verbatim>\<open>app.session\<close>.
\<close>

datatype failure = Fatal app | NilPointer

section \<open>The lifecycle engine\<close>

text \<open>\<^verbatim>\<open>var HeartbeatTTL = time.Minute * 10\<close>, a \<^verbatim>\<open>time.Duration\<close> in nanoseconds.\<close>

definition HeartbeatTTL :: int64 where
  "HeartbeatTTL = 60 * 1000000000 * 10"

definition Milliseconds :: "int64 \<Rightarrow> int64" where
  "Milliseconds d = word_of_int (sint d sdiv 1000000)"

text \<open>\<^verbatim>\<open>app.clock.GetTime()\<close> and \<^verbatim>\<open>time.Now().UTC().UnixMilli()\<close>.\<close>

definition GetTime :: "app \<Rightarrow> int64 \<times> app" where
  "GetTime a = (clock a (clockCalls a), a\<lparr>clockCalls := Suc (clockCalls a)\<rparr>)"

definition timeNow :: "app \<Rightarrow> int64 \<times> app" where
  "timeNow a = (wallClock a (wallCalls a), a\<lparr>wallCalls := Suc (wallCalls a)\<rparr>)"

text \<open>
  \<^verbatim>\<open>archiveCurrentFile\<close>, on the session that \<^verbatim>\<open>app.session\<close> points to: both callers
  hold a non-nil session when they reach it.
\<close>

definition archiveCurrentFile ::
  "int64 \<Rightarrow> Session \<Rightarrow> (addr \<Rightarrow> File) \<Rightarrow> Session \<times> (addr \<Rightarrow> File)" where
  "archiveCurrentFile closedAt s h =
     (case CurrentFile s of
        None \<Rightarrow> (s, h)
      | Some c \<Rightarrow> (s\<lparr>OpenFiles := OpenFiles s @ [c]\<rparr>, h(c := (h c)\<lparr>ClosedAt := closedAt\<rparr>)))"

definition createSession :: "string \<Rightarrow> string \<Rightarrow> app \<Rightarrow> app" where
  "createSession os editor a =
     (let (startedAt, a1) = timeNow a
      in a1\<lparr>session := Some \<lparr>StartedAt = startedAt, EndedAt = 0, SessionDurationMs = 0,
                                OS = os, Editor = editor, CurrentFile = None,
                                OpenFiles = [], Files = []\<rparr>\<rparr>)"

definition updateCurrentFile :: "string \<Rightarrow> app \<Rightarrow> failure + app" where
  "updateCurrentFile path a =
     (let (openedAt, a1) = GetTime a
      in case reader a1 path of
           None \<Rightarrow> Inr a1
         | Some fileMetadata \<Rightarrow>
             (case session a1 of
                None \<Rightarrow> Inl NilPointer
              | Some s \<Rightarrow>
                  (let file = \<lparr>Name = Filename fileMetadata,
                               Repository = RepositoryName fileMetadata,
                               Filetype = MetaFiletype fileMetadata,
                               Path = path, OpenedAt = openedAt, ClosedAt = 0,
                               DurationMs = 0\<rparr>;
                       (s1, h1) = archiveCurrentFile openedAt s (heap a1);
                       p = nextAddr a1
                   in Inr (a1\<lparr>session := Some (s1\<lparr>CurrentFile := Some p\<rparr>),
                              heap := h1(p := file),
                              nextAddr := Suc p\<rparr>))))"

text \<open>
  One round of the loop of \<^verbatim>\<open>saveSession\<close> over \<^verbatim>\<open>OpenFiles\<close>: a path seen for the
  first time gets its own interval as duration and enters the map; otherwise the
  interval is added to the File the map already points to.
\<close>

definition mergeFile ::
  "addr \<Rightarrow> (string \<times> addr) list \<times> (addr \<Rightarrow> File) \<Rightarrow> (string \<times> addr) list \<times> (addr \<Rightarrow> File)" where
  "mergeFile f fh =
     (let (files, h) = fh
      in case map_of files (Path (h f)) of
           None \<Rightarrow>
             (let h1 = h(f := (h f)\<lparr>DurationMs := ClosedAt (h f) - OpenedAt (h f)\<rparr>)
              in (files @ [(Path (h1 f), f)], h1))
         | Some currentFile \<Rightarrow>
             (files, h(currentFile := (h currentFile)\<lparr>DurationMs :=
                        DurationMs (h currentFile) + (ClosedAt (h f) - OpenedAt (h f))\<rparr>)))"

fun mergeFiles ::
  "addr list \<Rightarrow> (string \<times> addr) list \<times> (addr \<Rightarrow> File) \<Rightarrow> (string \<times> addr) list \<times> (addr \<Rightarrow> File)" where
  "mergeFiles [] fh = fh"
| "mergeFiles (f # fs) fh = mergeFiles fs (mergeFile f fh)"

text \<open>The deferred function of \<^verbatim>\<open>saveSession\<close>.\<close>

definition resetApp :: "app \<Rightarrow> app" where
  "resetApp a = a\<lparr>activeClientId := [], session := None\<rparr>"

text \<open>\<^verbatim>\<open>app.storage.Save(app.session)\<close> followed by the logging of its error.\<close>

definition storageSave :: "Session \<Rightarrow> app \<Rightarrow> app" where
  "storageSave s a =
     (let err = storageErr a (length (saved a));
          a1 = a\<lparr>saved := saved a @ [s]\<rparr>
      in if err then a1\<lparr>errorsLogged := Suc (errorsLogged a1)\<rparr> else a1)"

text \<open>
  The part of \<^verbatim>\<open>saveSession\<close> between its nil check and its emptiness check: the
  current file is archived at the clock's reading, the end and the duration of the
  session are set, and \<^verbatim>\<open>OpenFiles\<close> is merged into \<^verbatim>\<open>Files\<close>.
\<close>

definition closeSession :: "Session \<Rightarrow> app \<Rightarrow> Session \<times> app" where
  "closeSession s a =
     (let (endedAt, a1) = GetTime a;
          (s1, h1) = archiveCurrentFile endedAt s (heap a1);
          s2 = s1\<lparr>EndedAt := endedAt\<rparr>;
          s3 = s2\<lparr>SessionDurationMs := EndedAt s2 - StartedAt s2\<rparr>;
          (files, h2) = (if length (OpenFiles s3) > 0
                         then mergeFiles (OpenFiles s3) (Files s3, h1)
                         else (Files s3, h1));
          s4 = s3\<lparr>Files := files\<rparr>
      in (s4, a1\<lparr>session := Some s4, heap := h2\<rparr>))"

definition saveSession :: "app \<Rightarrow> app" where
  "saveSession a =
     (case session a of
        None \<Rightarrow> resetApp a
      | Some s \<Rightarrow>
          (let (s4, a2) = closeSession s a
           in if length (Files s4) < 1 then resetApp a2
              else resetApp (storageSave s4 a2)))"

definition FocusGained :: "Event \<Rightarrow> app \<Rightarrow> failure + (string option \<times> app)" where
  "FocusGained event a =
     (let (now, a1) = GetTime a;
          a2 = a1\<lparr>lastHeartbeat := now\<rparr>
      in if activeClientId a2 = EventId event then Inr (None, a2)
         else
           (let a3 = (if session a2 \<noteq> None then saveSession a2 else a2);
                a4 = a3\<lparr>activeClientId := EventId event\<rparr>;
                a5 = createSession (EventOS event) (EventEditor event) a4
            in case updateCurrentFile (EventPath event) a5 of
                 Inl e \<Rightarrow> Inl e
               | Inr a6 \<Rightarrow> Inr (Some ''Successfully updated the client being focused.'', a6)))"

definition OpenFile :: "Event \<Rightarrow> app \<Rightarrow> failure + (string option \<times> app)" where
  "OpenFile event a =
     (let (now, a1) = GetTime a;
          a2 = a1\<lparr>lastHeartbeat := now\<rparr>;
          a3 = (if session a2 = None
                then createSession (EventOS event) (EventEditor event)
                       (a2\<lparr>activeClientId := EventId event\<rparr>)
                else a2)
      in case updateCurrentFile (EventPath event) a3 of
           Inl e \<Rightarrow> Inl e
         | Inr a4 \<Rightarrow> Inr (Some ''Successfully updated the current file.'', a4))"

definition SendHeartbeat :: "Event \<Rightarrow> app \<Rightarrow> failure + (string option \<times> app)" where
  "SendHeartbeat event a =
     (case (if session a = None
            then updateCurrentFile (EventPath event)
                   (createSession (EventOS event) (EventEditor event)
                      (a\<lparr>activeClientId := EventId event\<rparr>))
            else Inr a) of
        Inl e \<Rightarrow> Inl e
      | Inr a1 \<Rightarrow>
          (let (now, a2) = GetTime a1
           in Inr (Some ''Successfully sent heartbeat'', a2\<lparr>lastHeartbeat := now\<rparr>)))"

definition EndSession :: "Event \<Rightarrow> app \<Rightarrow> failure + (string option \<times> app)" where
  "EndSession event a =
     (if length (activeClientId a) > 1 \<and> activeClientId a \<noteq> EventId event
      then Inl (Fatal a)
      else if activeClientId a = [] \<and> session a = None then Inr (None, a)
      else Inr (Some ''The session was ended successfully.'', saveSession a))"

text \<open>
  \<^verbatim>\<open>CheckHeartbeat\<close>. The condition of its \<^verbatim>\<open>if\<close> reads the session, the last heartbeat
  and the clock; only when it holds does the code take the mutex and call
  \<^verbatim>\<open>saveSession\<close>. The condition is a function of its own, so that a property can speak of
  the state in which it was evaluated.
\<close>

definition CheckHeartbeat_condition :: "app \<Rightarrow> bool \<times> app" where
  "CheckHeartbeat_condition a =
     (case session a of
        None \<Rightarrow> (False, a)
      | Some s \<Rightarrow>
          (let (now, a1) = GetTime a
           in (lastHeartbeat a + Milliseconds HeartbeatTTL <s now, a1)))"

definition CheckHeartbeat :: "app \<Rightarrow> app" where
  "CheckHeartbeat a =
     (let (stale, a1) = CheckHeartbeat_condition a
      in if stale then saveSession a1 else a1)"

text \<open>
  \<^verbatim>\<open>New\<close> with a clock, a reader and a storage: no active client, no session, last
  heartbeat 0. The wall clock is the environment's.
\<close>

definition New ::
  "(nat \<Rightarrow> int64) \<Rightarrow> (nat \<Rightarrow> int64) \<Rightarrow> (string \<Rightarrow> FileMetadata option) \<Rightarrow> (nat \<Rightarrow> bool) \<Rightarrow> app" where
  "New clk wall rd serr =
     \<lparr>clock = clk, clockCalls = 0, wallClock = wall, wallCalls = 0, reader = rd,
      storageErr = serr, saved = [], errorsLogged = 0, activeClientId = [],
      lastHeartbeat = 0, session = None,
      heap = (\<lambda>_. \<lparr>Name = [], Repository = [], Filetype = [], Path = [],
                       OpenedAt = 0, ClosedAt = 0, DurationMs = 0\<rparr>),
      nextAddr = 0\<rparr>"

section \<open>The aggregation of raw sessions by day\<close>

text \<open>
  Modelled from the spec: the declarations of \<^verbatim>\<open>domain.Session\<close> and
  \<^verbatim>\<open>domain.AggregatedSession\<close> are not among the sources. A raw session has the two
  fields \<^verbatim>\<open>Aggregate\<close> reads, \<^verbatim>\<open>StartedAt\<close> and \<^verbatim>\<open>DurationMs\<close>, and the spec's
  mapping from path to File; the fields carry the prefix \<open>Raw\<close> to keep them apart from
  those of the engine's session. An aggregated session has the five fields \<^verbatim>\<open>Aggregate\<close>
  sets, with the spec's mapping from repository to total time for \<^verbatim>\<open>Repositories\<close>.
\<close>

record RawSession =
  RawStartedAt :: int64
  RawDurationMs :: int64
  RawFiles :: "(string \<times> File) list"

datatype Period = Day | Week | Month | Year

record AggregatedSession =
  Period :: Period
  Date :: int64
  DateString :: string
  TotalTimeMs :: int64
  Repositories :: "string \<Rightarrow> int64 option"

text \<open>
  Modelled from the spec: \<^verbatim>\<open>truncate.Day\<close> is not among the sources; the spec buckets by
  the calendar day (UTC, midnight-truncated) of a timestamp in milliseconds, which is
  the timestamp rounded down to a multiple of 86400000.
\<close>

definition truncate_Day :: "int64 \<Rightarrow> int64" where
  "truncate_Day t = word_of_int (sint t - sint t mod 86400000)"

text \<open>
  Modelled from the spec: \<^verbatim>\<open>sessionRepositories\<close> is not among the sources; the spec
  builds \<open>repositories\<close> by summing, per file, its duration into its repository's running
  total across all sessions and files of the bucket. \<open>repositoryDurations r\<close> lists the
  durations of the files of repository \<open>r\<close>; a repository without a file has no entry.
\<close>

definition repositoryDurations :: "string \<Rightarrow> RawSession list \<Rightarrow> int64 list" where
  "repositoryDurations r ss =
     concat (map (\<lambda>s. map (\<lambda>pf. DurationMs (snd pf))
                          (filter (\<lambda>pf. Repository (snd pf) = r) (RawFiles s))) ss)"

definition sessionRepositories :: "RawSession list \<Rightarrow> string \<Rightarrow> int64 option" where
  "sessionRepositories ss r =
     (if repositoryDurations r ss = [] then None else Some (sum_list (repositoryDurations r ss)))"

text \<open>
  \<^verbatim>\<open>groupByDay\<close>. The Go map from day to sessions is an association list with one entry
  per day, in the order in which the days first occur; \<open>addToBucket\<close> is the body of the
  loop, \<^verbatim>\<open>buckets[d] = append(buckets[d], s)\<close>.
\<close>

definition addToBucket ::
  "RawSession \<Rightarrow> (int64 \<times> RawSession list) list \<Rightarrow> (int64 \<times> RawSession list) list" where
  "addToBucket s buckets =
     (let d = truncate_Day (RawStartedAt s)
      in AList.map_default d [s] (\<lambda>b. b @ [s]) buckets)"

fun groupLoop ::
  "RawSession list \<Rightarrow> (int64 \<times> RawSession list) list \<Rightarrow> (int64 \<times> RawSession list) list" where
  "groupLoop [] buckets = buckets"
| "groupLoop (s # ss) buckets = groupLoop ss (addToBucket s buckets)"

definition groupByDay :: "RawSession list \<Rightarrow> (int64 \<times> RawSession list) list" where
  "groupByDay ss = groupLoop ss []"

text \<open>The inner loop of \<^verbatim>\<open>Aggregate\<close>: \<^verbatim>\<open>totalTime += tempSession.DurationMs\<close>.\<close>

fun totalLoop :: "RawSession list \<Rightarrow> int64 \<Rightarrow> int64" where
  "totalLoop [] totalTime = totalTime"
| "totalLoop (tempSession # rest) totalTime =
     totalLoop rest (totalTime + RawDurationMs tempSession)"

text \<open>
  The body of the outer loop of \<^verbatim>\<open>Aggregate\<close>, for one bucket. \<open>format\<close> stands for Go's
  \<^verbatim>\<open>time.Unix(0, ns).Format("2006-01-02")\<close>, applied to the day in nanoseconds.
\<close>

definition aggregateBucket ::
  "(int64 \<Rightarrow> string) \<Rightarrow> int64 \<times> RawSession list \<Rightarrow> AggregatedSession" where
  "aggregateBucket format bucket =
     (let (date, tempSessions) = bucket;
          dateString = format (date * 1000000);
          totalTime = totalLoop tempSessions 0
      in \<lparr>Period = Day, Date = date, DateString = dateString, TotalTimeMs = totalTime,
          Repositories = sessionRepositories tempSessions\<rparr>)"

text \<open>
  \<^verbatim>\<open>Aggregate\<close>. Go ranges over the map of buckets in an unspecified order; the model
  lists the buckets in the order of the association list, and the properties below speak
  of the set of the aggregated sessions only.
\<close>

definition Aggregate :: "(int64 \<Rightarrow> string) \<Rightarrow> RawSession list \<Rightarrow> AggregatedSession list" where
  "Aggregate format sessions = map (aggregateBucket format) (groupByDay sessions)"

section \<open>Notions used to state the properties\<close>

text \<open>The day of a raw session, and the sessions that started on a day.\<close>

definition dayOf :: "RawSession \<Rightarrow> int64" where
  "dayOf s = truncate_Day (RawStartedAt s)"

definition startedOn :: "int64 \<Rightarrow> RawSession list \<Rightarrow> RawSession list" where
  "startedOn d ss = filter (\<lambda>s. dayOf s = d) ss"

text \<open>An active session has an empty Files map: it is filled only by \<open>saveSession\<close>.\<close>

definition filesEmpty :: "app \<Rightarrow> bool" where
  "filesEmpty a = (case session a of None \<Rightarrow> True | Some s \<Rightarrow> Files s = [])"

text \<open>The sum of the durations of all sessions in all buckets.\<close>

definition bucketTotals :: "(int64 \<times> RawSession list) list \<Rightarrow> int64" where
  "bucketTotals b = sum_list (map (\<lambda>bucket. sum_list (map RawDurationMs (snd bucket))) b)"

text \<open>
  The lengths \<open>closedAt - openedAt\<close> of the intervals of path \<open>p\<close> among the Files
  at the addresses \<open>fs\<close>, in the order of \<open>fs\<close>.
\<close>

definition intervals :: "(addr \<Rightarrow> File) \<Rightarrow> string \<Rightarrow> addr list \<Rightarrow> int64 list" where
  "intervals h p fs =
     map (\<lambda>b. ClosedAt (h b) - OpenedAt (h b)) (filter (\<lambda>b. Path (h b) = p) fs)"

text \<open>Every entry of the map points to a File of the entry's path.\<close>

definition wfFiles :: "(string \<times> addr) list \<Rightarrow> (addr \<Rightarrow> File) \<Rightarrow> bool" where
  "wfFiles files h = (\<forall>(p, f) \<in> set files. Path (h f) = p)"

text \<open>Two heaps whose Files have the same paths and the same intervals.\<close>

definition sameIntervals :: "(addr \<Rightarrow> File) \<Rightarrow> (addr \<Rightarrow> File) \<Rightarrow> bool" where
  "sameIntervals h h' =
     (\<forall>b. Path (h' b) = Path (h b) \<and> OpenedAt (h' b) = OpenedAt (h b)
          \<and> ClosedAt (h' b) = ClosedAt (h b))"

text \<open>The duration the map holds for path \<open>p\<close>; 0 when the map has no entry.\<close>

definition carried :: "(string \<times> addr) list \<Rightarrow> (addr \<Rightarrow> File) \<Rightarrow> string \<Rightarrow> int64" where
  "carried files h p = (case map_of files p of None \<Rightarrow> 0 | Some a \<Rightarrow> DurationMs (h a))"

text \<open>The open files of a session once its current file has been archived.\<close>

definition archived :: "Session \<Rightarrow> addr list" where
  "archived s = OpenFiles s @ (case CurrentFile s of None \<Rightarrow> [] | Some c \<Rightarrow> [c])"

text \<open>
  The calls the engine receives: the four remote procedures and the heartbeat check of
  the ticker in \<^verbatim>\<open>Start\<close>. \<open>run\<close> applies a sequence of calls, one after the other,
  and stops at the first that does not return.
\<close>

datatype call = CallFocusGained Event | CallOpenFile Event | CallSendHeartbeat Event
  | CallEndSession Event | CallCheckHeartbeat

fun step :: "call \<Rightarrow> app \<Rightarrow> failure + app" where
  "step (CallFocusGained e) a = map_sum id snd (FocusGained e a)"
| "step (CallOpenFile e) a = map_sum id snd (OpenFile e a)"
| "step (CallSendHeartbeat e) a = map_sum id snd (SendHeartbeat e a)"
| "step (CallEndSession e) a = map_sum id snd (EndSession e a)"
| "step CallCheckHeartbeat a = Inr (CheckHeartbeat a)"

fun run :: "call list \<Rightarrow> app \<Rightarrow> failure + app" where
  "run [] a = Inr a"
| "run (c # cs) a = (case step c a of Inl e \<Rightarrow> Inl e | Inr a' \<Rightarrow> run cs a')"

section \<open>Example states\<close>

text \<open>A reader that resolves every path to the repository \<open>repo\<close>.\<close>

definition testReader :: "string \<Rightarrow> FileMetadata option" where
  "testReader path = Some \<lparr>Filename = path, RepositoryName = ''repo'', MetaFiletype = ''go''\<rparr>"

definition testEvent :: "string \<Rightarrow> string \<Rightarrow> Event" where
  "testEvent client path =
     \<lparr>EventId = client, EventOS = ''linux'', EventEditor = ''nvim'', EventPath = path\<rparr>"

text \<open>A session as \<open>createSession\<close> leaves it: no file yet.\<close>

definition emptySession :: Session where
  "emptySession =
     \<lparr>StartedAt = 0, EndedAt = 0, SessionDurationMs = 0, OS = ''linux'', Editor = ''nvim'',
      CurrentFile = None, OpenFiles = [], Files = []\<rparr>"

text \<open>An engine in which \<open>client\<close> is active, with the empty session.\<close>

definition activeApp :: "string \<Rightarrow> (nat \<Rightarrow> int64) \<Rightarrow> app" where
  "activeApp client clk =
     (New clk (\<lambda>_. 0) testReader (\<lambda>_. False))
       \<lparr>activeClientId := client, session := Some emptySession\<rparr>"

text \<open>
  The scenario of the spec: \<^verbatim>\<open>/repo/a.go\<close> is open during [0, 1000) and [2000, 2500),
  \<^verbatim>\<open>/repo/b.go\<close> in between, and the session ends at 2500. Each OpenFile reads the
  clock twice.
\<close>

definition scenarioClock :: "nat \<Rightarrow> int64" where
  "scenarioClock n =
     (if n < 2 then 0 else if n < 4 then 1000 else if n < 6 then 2000 else 2500)"

definition scenarioCalls :: "call list" where
  "scenarioCalls = [CallOpenFile (testEvent ''A'' ''/repo/a.go''),
                    CallOpenFile (testEvent ''A'' ''/repo/b.go''),
                    CallOpenFile (testEvent ''A'' ''/repo/a.go'')]"

definition scenarioApp :: app where
  "scenarioApp =
     (case run scenarioCalls (New scenarioClock (\<lambda>_. 0) testReader (\<lambda>_. False)) of
        Inr a \<Rightarrow> a)"

definition scenarioSession :: Session where
  "scenarioSession =
     \<lparr>StartedAt = 0, EndedAt = 0, SessionDurationMs = 0, OS = ''linux'', Editor = ''nvim'',
      CurrentFile = Some 2, OpenFiles = [0, 1], Files = []\<rparr>"

definition scenarioSaved :: Session where
  "scenarioSaved =
     \<lparr>StartedAt = 0, EndedAt = 2500, SessionDurationMs = 2500, OS = ''linux'',
      Editor = ''nvim'', CurrentFile = Some 2, OpenFiles = [0, 1, 2],
      Files = [(''/repo/a.go'', 0), (''/repo/b.go'', 1)]\<rparr>"

text \<open>
  The engine after a FocusGained of client \<open>A\<close> at time 0, with the clock at \<open>later\<close>
  from then on: a session with a current file and the last heartbeat at 0.
\<close>

definition focusedApp :: "int64 \<Rightarrow> app" where
  "focusedApp later =
     (case run [CallFocusGained (testEvent ''A'' ''/repo/a.go'')]
             (New (\<lambda>n. if n < 2 then 0 else later) (\<lambda>_. 0) testReader (\<lambda>_. False)) of
        Inr a \<Rightarrow> a)"

definition focusedSession :: Session where
  "focusedSession =
     \<lparr>StartedAt = 0, EndedAt = 0, SessionDurationMs = 0, OS = ''linux'', Editor = ''nvim'',
      CurrentFile = Some 0, OpenFiles = [], Files = []\<rparr>"

text \<open>
  The engine after a FocusGained of client \<open>A\<close> on a path the reader cannot resolve, at
  time 0 and with the clock at 700000 from then on; and an engine whose last heartbeat is
  the largest \<open>int64\<close>, with the clock at 0.
\<close>

definition unresolvedApp :: app where
  "unresolvedApp =
     (case run [CallFocusGained (testEvent ''A'' ''/tmp/notes'')]
             (New (\<lambda>n. if n < 2 then 0 else 700000) (\<lambda>_. 0) (\<lambda>_. None) (\<lambda>_. False)) of
        Inr a \<Rightarrow> a)"

definition wrappedApp :: app where
  "wrappedApp = (activeApp ''A'' (\<lambda>_. 0))\<lparr>lastHeartbeat := 9223372036854775807\<rparr>"

text \<open>
  An engine whose session of client \<open>A\<close> had its last heartbeat at 0, with the clock at
  700000.
\<close>

definition staleApp :: app where
  "staleApp = activeApp ''A'' (\<lambda>_. 700000)"

text \<open>
  An engine whose wall clock reads 1000 while its injected clock reads 0, after one
  OpenFile.
\<close>

definition skewedApp :: app where
  "skewedApp =
     (case run [CallOpenFile (testEvent ''A'' ''/repo/a.go'')]
             (New (\<lambda>_. 0) (\<lambda>_. 1000) testReader (\<lambda>_. False)) of
        Inr a \<Rightarrow> a)"

definition skewedSession :: Session where
  "skewedSession =
     \<lparr>StartedAt = 1000, EndedAt = 0, SessionDurationMs = 0, OS = ''linux'', Editor = ''nvim'',
      CurrentFile = Some 0, OpenFiles = [], Files = []\<rparr>"

text \<open>
  Three raw sessions: two start on day 0, one of them a millisecond before midnight and
  running past it, and one starts on day 1.
\<close>

definition rawSession :: "int64 \<Rightarrow> int64 \<Rightarrow> string \<Rightarrow> RawSession" where
  "rawSession startedAt durationMs path =
     \<lparr>RawStartedAt = startedAt, RawDurationMs = durationMs,
      RawFiles = [(path, \<lparr>Name = path, Repository = ''repo'', Filetype = ''go'', Path = path,
                            OpenedAt = startedAt, ClosedAt = startedAt + durationMs,
                            DurationMs = durationMs\<rparr>)]\<rparr>"

definition rawSessions :: "RawSession list" where
  "rawSessions = [rawSession 1000 100 ''/repo/a.go'',
                  rawSession 86400005 7 ''/repo/b.go'',
                  rawSession 86399999 5000 ''/repo/a.go'']"

definition testFormat :: "int64 \<Rightarrow> string" where
  "testFormat ns = (if ns = 0 then ''1970-01-01'' else ''1970-01-02'')"

section \<open>Focus from the active client\<close>

text \<open>
  C4. A FocusGained event whose client id equals the active client id leaves the
  session (with its current file and its open files), the active client id, the Files on
  the heap and the sessions handed to the storage as they are; it only sets the last
  heartbeat to the clock's reading.
\<close>

theorem FocusGained_same_client:
  assumes "EventId event = activeClientId a"
  shows "\<exists>a'. FocusGained event a = Inr (None, a')
           \<and> session a' = session a
           \<and> activeClientId a' = activeClientId a
           \<and> heap a' = heap a
           \<and> saved a' = saved a
           \<and> lastHeartbeat a' = clock a (clockCalls a)
           \<and> a' = a\<lparr>clockCalls := Suc (clockCalls a), lastHeartbeat := clock a (clockCalls a)\<rparr>"
  using assms by (simp add: FocusGained_def GetTime_def)

theorem FocusGained_same_client_witness:
  "EventId (testEvent ''A'' ''/repo/a.go'') = activeClientId (activeApp ''A'' (\<lambda>_. 50))
   \<and> (\<exists>a'. FocusGained (testEvent ''A'' ''/repo/a.go'') (activeApp ''A'' (\<lambda>_. 50)) = Inr (None, a')
           \<and> session a' = session (activeApp ''A'' (\<lambda>_. 50))
           \<and> activeClientId a' = ''A''
           \<and> lastHeartbeat a' = 50)"
  using FocusGained_same_client [of "testEvent ''A'' ''/repo/a.go''" "activeApp ''A'' (\<lambda>_. 50)"]
  by (simp add: testEvent_def activeApp_def New_def)

section \<open>Merged durations\<close>

lemma sameIntervals_refl: "sameIntervals h h"
  by (simp add: sameIntervals_def)

lemma sameIntervals_trans: "sameIntervals h h1 \<Longrightarrow> sameIntervals h1 h2 \<Longrightarrow> sameIntervals h h2"
  by (simp add: sameIntervals_def)

lemma sameIntervals_intervals: "sameIntervals h h' \<Longrightarrow> intervals h' p fs = intervals h p fs"
  by (simp add: sameIntervals_def intervals_def)

lemma mergeFile_frame: "sameIntervals h (snd (mergeFile f (files, h)))"
  by (simp add: mergeFile_def sameIntervals_def split: option.splits)

lemma mergeFiles_frame: "sameIntervals (snd fh) (snd (mergeFiles fs fh))"
proof (induction fs arbitrary: fh)
  case Nil
  show ?case by (simp add: sameIntervals_refl)
next
  case (Cons f fs)
  obtain files h where fh: "fh = (files, h)" by (cases fh)
  have "sameIntervals h (snd (mergeFile f (files, h)))" by (rule mergeFile_frame)
  moreover have "sameIntervals (snd (mergeFile f (files, h))) (snd (mergeFiles fs (mergeFile f (files, h))))"
    by (rule Cons.IH)
  ultimately show ?case using fh by (auto intro: sameIntervals_trans)
qed

lemma mergeFile_wf:
  assumes "wfFiles files h"
  shows "wfFiles (fst (mergeFile f (files, h))) (snd (mergeFile f (files, h)))"
  using assms by (auto simp: mergeFile_def wfFiles_def split: option.splits)

lemma wfFiles_map_of: "wfFiles files h \<Longrightarrow> map_of files p = Some a \<Longrightarrow> Path (h a) = p"
  by (auto simp: wfFiles_def dest: map_of_SomeD)

lemma mergeFile_lookup:
  "map_of (fst (mergeFile f (files, h))) p =
     (case map_of files p of Some a \<Rightarrow> Some a
      | None \<Rightarrow> (if Path (h f) = p then Some f else None))"
  by (auto simp: mergeFile_def map_add_def split: option.splits)

lemma mergeFile_carried:
  assumes "wfFiles files h"
  shows "carried (fst (mergeFile f (files, h))) (snd (mergeFile f (files, h))) p =
           carried files h p + sum_list (intervals h p [f])"
  using assms
  by (auto simp: mergeFile_def carried_def intervals_def map_add_def split: option.splits dest: wfFiles_map_of)

lemma intervals_Cons: "intervals h p (f # fs) = intervals h p [f] @ intervals h p fs"
  by (simp add: intervals_def)

lemma mergeFiles_carried:
  assumes "wfFiles (fst fh) (snd fh)"
  shows "carried (fst (mergeFiles fs fh)) (snd (mergeFiles fs fh)) p =
           carried (fst fh) (snd fh) p + sum_list (intervals (snd fh) p fs)
         \<and> wfFiles (fst (mergeFiles fs fh)) (snd (mergeFiles fs fh))"
  using assms
proof (induction fs arbitrary: fh)
  case Nil
  then show ?case by (simp add: intervals_def)
next
  case (Cons f fs)
  obtain files h where fh: "fh = (files, h)" by (cases fh)
  let ?fh1 = "mergeFile f (files, h)"
  have wf: "wfFiles files h" using Cons.prems fh by simp
  have wf1: "wfFiles (fst ?fh1) (snd ?fh1)" using wf by (rule mergeFile_wf)
  have step: "carried (fst ?fh1) (snd ?fh1) p = carried files h p + sum_list (intervals h p [f])"
    using wf by (rule mergeFile_carried)
  have same: "intervals (snd ?fh1) p fs = intervals h p fs"
    by (rule sameIntervals_intervals [OF mergeFile_frame])
  from Cons.IH [OF wf1] step same show ?case
    by (simp add: fh intervals_Cons [of h p f fs] add.assoc)
qed

lemma mergeFiles_lookup:
  "map_of (fst (mergeFiles fs fh)) p =
     (case map_of (fst fh) p of Some a \<Rightarrow> Some a
      | None \<Rightarrow> find (\<lambda>b. Path (snd fh b) = p) fs)"
proof (induction fs arbitrary: fh)
  case Nil
  show ?case by (simp split: option.splits)
next
  case (Cons f fs)
  obtain files h where fh: "fh = (files, h)" by (cases fh)
  let ?fh1 = "mergeFile f (files, h)"
  have same: "sameIntervals h (snd ?fh1)" by (rule mergeFile_frame)
  then have "(\<lambda>b. Path (snd ?fh1 b) = p) = (\<lambda>b. Path (h b) = p)"
    by (simp add: sameIntervals_def)
  with Cons.IH [of ?fh1] show ?case
    by (simp add: fh mergeFile_lookup split: option.splits)
qed


lemma mergeFiles_if:
  "(if length fs > 0 then mergeFiles fs fh else fh) = mergeFiles fs fh"
  by (cases fs) simp_all

lemma closeSession_eq:
  "closeSession s a =
     (let t = clock a (clockCalls a);
          h1 = snd (archiveCurrentFile t s (heap a));
          fh = mergeFiles (archived s) (Files s, h1);
          s4 = s\<lparr>OpenFiles := archived s, EndedAt := t, SessionDurationMs := t - StartedAt s,
                  Files := fst fh\<rparr>
      in (s4, a\<lparr>clockCalls := Suc (clockCalls a), session := Some s4, heap := snd fh\<rparr>))"
  by (cases "CurrentFile s")
     (simp_all add: closeSession_def GetTime_def archiveCurrentFile_def archived_def mergeFiles_if
        Let_def split_beta)

lemma heap_saveSession:
  "session a = Some s \<Longrightarrow> heap (saveSession a) = heap (snd (closeSession s a))"
  by (simp add: saveSession_def resetApp_def storageSave_def Let_def split_beta)

lemma saved_saveSession:
  "session a = Some s \<Longrightarrow>
   saved (saveSession a) =
     (if Files (fst (closeSession s a)) = [] then saved a
      else saved a @ [fst (closeSession s a)])"
  by (simp add: saveSession_def resetApp_def storageSave_def Let_def split_beta closeSession_eq)


lemma intervals_find_None:
  "find (\<lambda>b. Path (h b) = p) fs = None \<Longrightarrow> intervals h p fs = []"
  by (auto simp: intervals_def find_None_iff filter_empty_conv)

lemma closeSession_merged:
  fixes s :: Session and a :: app
  assumes "Files s = []"
  defines "s' \<equiv> fst (closeSession s a)"
      and "h' \<equiv> heap (snd (closeSession s a))"
  shows "OpenFiles s' = archived s"
    and "CurrentFile s = Some c \<Longrightarrow> ClosedAt (h' c) = clock a (clockCalls a)"
    and "map_of (Files s') p = None \<Longrightarrow> intervals h' p (OpenFiles s') = []"
    and "map_of (Files s') p = Some f \<Longrightarrow>
           DurationMs (h' f) = sum_list (intervals h' p (OpenFiles s'))"
proof -
  let ?t = "clock a (clockCalls a)"
  let ?h1 = "snd (archiveCurrentFile ?t s (heap a))"
  let ?fh = "mergeFiles (archived s) ([], ?h1)"
  have s': "s' = s\<lparr>OpenFiles := archived s, EndedAt := ?t,
                     SessionDurationMs := ?t - StartedAt s, Files := fst ?fh\<rparr>"
    and h': "h' = snd ?fh"
    using assms(1) by (simp_all add: s'_def h'_def closeSession_eq Let_def)
  have same: "sameIntervals ?h1 h'"
    unfolding h' using mergeFiles_frame [of "([], ?h1)" "archived s"] by simp
  show "OpenFiles s' = archived s" by (simp add: s')
  show "ClosedAt (h' c) = ?t" if "CurrentFile s = Some c"
  proof -
    have "ClosedAt (?h1 c) = ?t" using that by (simp add: archiveCurrentFile_def)
    with same show ?thesis by (simp add: sameIntervals_def)
  qed
  have wf: "wfFiles (fst ([], ?h1)) (snd ([], ?h1))" by (simp add: wfFiles_def)
  have car: "carried (Files s') h' p = sum_list (intervals h' p (archived s))"
    using mergeFiles_carried [OF wf, of "archived s" p] sameIntervals_intervals [OF same]
    by (simp add: s' h' carried_def)
  have look: "map_of (Files s') p = find (\<lambda>b. Path (?h1 b) = p) (archived s)"
    using mergeFiles_lookup [of "archived s" "([], ?h1)" p] by (simp add: s')
  show "intervals h' p (OpenFiles s') = []" if "map_of (Files s') p = None"
  proof -
    have "intervals ?h1 p (archived s) = []"
      using that look by (simp add: intervals_find_None)
    then show ?thesis using sameIntervals_intervals [OF same] by (simp add: s')
  qed
  show "DurationMs (h' f) = sum_list (intervals h' p (OpenFiles s'))"
    if "map_of (Files s') p = Some f"
    using that car by (simp add: carried_def s')
qed

text \<open>
  C2. When \<open>saveSession\<close> hands a session to the storage, and the session came with an
  empty \<open>Files\<close> map (as \<open>createSession\<close> makes it), then its open files are the
  archived ones followed by the current file, closed at the clock's reading, and for
  every path \<open>p\<close> the merged entry \<open>Files[p]\<close> has as duration the sum of
  \<open>closedAt - openedAt\<close> over all open files of path \<open>p\<close>, however often \<open>p\<close> was
  reopened; a path without an entry has no open file. The sum is Go's, in \<open>int64\<close>.
\<close>

theorem saveSession_merged_durations:
  assumes "session a = Some s" and "Files s = []"
      and "saved (saveSession a) = saved a @ [s']"
  shows "OpenFiles s' = OpenFiles s @ (case CurrentFile s of None \<Rightarrow> [] | Some c \<Rightarrow> [c])
       \<and> (\<forall>c. CurrentFile s = Some c \<longrightarrow>
                ClosedAt (heap (saveSession a) c) = clock a (clockCalls a))
       \<and> (\<forall>p. case map_of (Files s') p of
                  None \<Rightarrow> intervals (heap (saveSession a)) p (OpenFiles s') = []
                | Some f \<Rightarrow> DurationMs (heap (saveSession a) f)
                             = sum_list (intervals (heap (saveSession a)) p (OpenFiles s')))"
proof -
  have s': "s' = fst (closeSession s a)"
    using assms(1,3) by (simp add: saved_saveSession split: if_splits)
  have h': "heap (saveSession a) = heap (snd (closeSession s a))"
    using assms(1) by (rule heap_saveSession)
  show ?thesis
    unfolding s' h'
    using closeSession_merged [OF assms(2), where a = a]
    by (auto simp: archived_def split: option.splits)
qed

lemma scenarioClock_values:
  "scenarioClock 0 = 0"
  "scenarioClock (Suc 0) = 0"
  "scenarioClock (Suc (Suc 0)) = 1000"
  "scenarioClock (Suc (Suc (Suc 0))) = 1000"
  "scenarioClock (Suc (Suc (Suc (Suc 0)))) = 2000"
  "scenarioClock (Suc (Suc (Suc (Suc (Suc 0))))) = 2000"
  "scenarioClock (Suc (Suc (Suc (Suc (Suc (Suc 0)))))) = 2500"
  by (simp_all add: scenarioClock_def)

lemmas scenario_defs = scenarioApp_def scenarioCalls_def scenarioSession_def New_def
  testEvent_def testReader_def OpenFile_def GetTime_def createSession_def timeNow_def
  updateCurrentFile_def archiveCurrentFile_def scenarioClock_values Let_def

lemmas save_defs = scenarioSaved_def saveSession_def closeSession_def mergeFile_def
  resetApp_def storageSave_def

lemma scenario_session: "session scenarioApp = Some scenarioSession"
  by (simp add: scenario_defs)

lemma scenario_saved: "saved (saveSession scenarioApp) = saved scenarioApp @ [scenarioSaved]"
  by (simp add: scenario_defs save_defs)

lemma scenario_duration: "DurationMs (heap (saveSession scenarioApp) 0) = 1500"
  by (simp add: scenario_defs save_defs)

theorem saveSession_merged_durations_witness:
  "session scenarioApp = Some scenarioSession \<and> Files scenarioSession = []
   \<and> saved (saveSession scenarioApp) = saved scenarioApp @ [scenarioSaved]
   \<and> map_of (Files scenarioSaved) ''/repo/a.go'' = Some 0
   \<and> DurationMs (heap (saveSession scenarioApp) 0)
       = sum_list (intervals (heap (saveSession scenarioApp)) ''/repo/a.go'' (OpenFiles scenarioSaved))
   \<and> intervals (heap (saveSession scenarioApp)) ''/repo/a.go'' (OpenFiles scenarioSaved)
       = [1000, 500]"
proof -
  have h1: "session scenarioApp = Some scenarioSession" by (rule scenario_session)
  have h2: "Files scenarioSession = []" by (simp add: scenarioSession_def)
  have h3: "saved (saveSession scenarioApp) = saved scenarioApp @ [scenarioSaved]" by (rule scenario_saved)
  have look: "map_of (Files scenarioSaved) ''/repo/a.go'' = Some 0" by (simp add: scenarioSaved_def)
  have iv: "intervals (heap (saveSession scenarioApp)) ''/repo/a.go'' (OpenFiles scenarioSaved) = [1000, 500]"
    by (simp add: intervals_def scenario_defs save_defs)
  from saveSession_merged_durations [OF h1 h2 h3]
  have "case map_of (Files scenarioSaved) ''/repo/a.go'' of
          None \<Rightarrow> intervals (heap (saveSession scenarioApp)) ''/repo/a.go'' (OpenFiles scenarioSaved) = []
        | Some f \<Rightarrow> DurationMs (heap (saveSession scenarioApp) f)
             = sum_list (intervals (heap (saveSession scenarioApp)) ''/repo/a.go'' (OpenFiles scenarioSaved))"
    by blast
  with look have "DurationMs (heap (saveSession scenarioApp) 0)
       = sum_list (intervals (heap (saveSession scenarioApp)) ''/repo/a.go'' (OpenFiles scenarioSaved))"
    by simp
  with h1 h2 h3 look iv show ?thesis by simp
qed

section \<open>The close path\<close>

lemma activeApp_session: "session (activeApp c clk) = Some emptySession"
  by (simp add: activeApp_def emptySession_def)

lemma session_saveSession: "session (saveSession a) = None"
  by (simp add: saveSession_def resetApp_def Let_def split_beta split: option.splits)

lemma activeClientId_saveSession: "activeClientId (saveSession a) = []"
  by (simp add: saveSession_def resetApp_def Let_def split_beta split: option.splits)

lemma saved_saveSession_None: "session a = None \<Longrightarrow> saved (saveSession a) = saved a"
  by (simp add: saveSession_def resetApp_def)

lemma saveSession_appends:
  "\<exists>ss. saved (saveSession a) = saved a @ ss \<and> (\<forall>s' \<in> set ss. Files s' \<noteq> [])"
proof (cases "session a")
  case None
  then show ?thesis by (simp add: saved_saveSession_None)
next
  case (Some s)
  show ?thesis
  proof (cases "Files (fst (closeSession s a)) = []")
    case True
    with Some show ?thesis by (simp add: saved_saveSession)
  next
    case False
    with Some have "saved (saveSession a) = saved a @ [fst (closeSession s a)]"
      by (simp add: saved_saveSession)
    with False show ?thesis by simp
  qed
qed

lemma saved_createSession: "saved (createSession os editor a) = saved a"
  by (simp add: createSession_def timeNow_def)

lemma saved_updateCurrentFile: "updateCurrentFile path a = Inr a' \<Longrightarrow> saved a' = saved a"
  by (auto simp: updateCurrentFile_def GetTime_def Let_def split_beta split: option.splits)

lemma updateCurrentFile_session:
  "session a \<noteq> None \<Longrightarrow> \<exists>a'. updateCurrentFile path a = Inr a' \<and> session a' \<noteq> None"
  by (auto simp: updateCurrentFile_def GetTime_def Let_def split_beta split: option.splits)

lemma session_createSession: "session (createSession os editor a) \<noteq> None"
  by (simp add: createSession_def timeNow_def)

lemma FocusGained_returns: "\<exists>r a'. FocusGained e a = Inr (r, a')"
proof (cases "activeClientId a = EventId e")
  case True
  then show ?thesis by (simp add: FocusGained_def GetTime_def)
next
  case False
  let ?a2 = "a\<lparr>clockCalls := Suc (clockCalls a), lastHeartbeat := clock a (clockCalls a)\<rparr>"
  let ?a3 = "if session ?a2 \<noteq> None then saveSession ?a2 else ?a2"
  let ?a5 = "createSession (EventOS e) (EventEditor e) (?a3\<lparr>activeClientId := EventId e\<rparr>)"
  obtain a6 where "updateCurrentFile (EventPath e) ?a5 = Inr a6"
    using updateCurrentFile_session [OF session_createSession] by blast
  with False show ?thesis by (simp add: FocusGained_def GetTime_def Let_def)
qed


lemma FocusGained_saved:
  assumes "FocusGained e a = Inr (r, a')"
  shows "\<exists>ss. saved a' = saved a @ ss \<and> (\<forall>s' \<in> set ss. Files s' \<noteq> [])"
proof (cases "activeClientId a = EventId e")
  case True
  with assms show ?thesis by (auto simp: FocusGained_def GetTime_def)
next
  case False
  let ?a2 = "a\<lparr>clockCalls := Suc (clockCalls a), lastHeartbeat := clock a (clockCalls a)\<rparr>"
  let ?a3 = "if session ?a2 \<noteq> None then saveSession ?a2 else ?a2"
  let ?a5 = "createSession (EventOS e) (EventEditor e) (?a3\<lparr>activeClientId := EventId e\<rparr>)"
  from assms False have "updateCurrentFile (EventPath e) ?a5 = Inr a'"
    by (auto simp: FocusGained_def GetTime_def Let_def split: sum.splits)
  then have "saved a' = saved ?a3"
    by (simp add: saved_updateCurrentFile saved_createSession)
  moreover have "\<exists>ss. saved ?a3 = saved a @ ss \<and> (\<forall>s' \<in> set ss. Files s' \<noteq> [])"
    using saveSession_appends [of ?a2] by auto
  ultimately show ?thesis by simp
qed

lemma OpenFile_returns: "\<exists>r a'. OpenFile e a = Inr (r, a')"
proof -
  let ?a2 = "a\<lparr>clockCalls := Suc (clockCalls a), lastHeartbeat := clock a (clockCalls a)\<rparr>"
  let ?a3 = "if session ?a2 = None
             then createSession (EventOS e) (EventEditor e) (?a2\<lparr>activeClientId := EventId e\<rparr>)
             else ?a2"
  have "session ?a3 \<noteq> None"
    by (cases "session a") (simp_all add: createSession_def timeNow_def)
  then obtain a4 where "updateCurrentFile (EventPath e) ?a3 = Inr a4"
    using updateCurrentFile_session by blast
  then show ?thesis by (simp add: OpenFile_def GetTime_def Let_def)
qed

lemma OpenFile_saved:
  assumes "OpenFile e a = Inr (r, a')"
  shows "saved a' = saved a"
proof -
  let ?a2 = "a\<lparr>clockCalls := Suc (clockCalls a), lastHeartbeat := clock a (clockCalls a)\<rparr>"
  let ?a3 = "if session ?a2 = None
             then createSession (EventOS e) (EventEditor e) (?a2\<lparr>activeClientId := EventId e\<rparr>)
             else ?a2"
  from assms have "updateCurrentFile (EventPath e) ?a3 = Inr a'"
    by (auto simp: OpenFile_def GetTime_def Let_def split: sum.splits)
  then have "saved a' = saved ?a3" by (rule saved_updateCurrentFile)
  then show ?thesis by (simp add: saved_createSession)
qed

lemma SendHeartbeat_returns: "\<exists>r a'. SendHeartbeat e a = Inr (r, a')"
proof (cases "session a")
  case None
  let ?a1 = "createSession (EventOS e) (EventEditor e) (a\<lparr>activeClientId := EventId e\<rparr>)"
  obtain a2 where "updateCurrentFile (EventPath e) ?a1 = Inr a2"
    using updateCurrentFile_session [OF session_createSession] by blast
  with None show ?thesis by (simp add: SendHeartbeat_def GetTime_def)
next
  case (Some s)
  then show ?thesis by (simp add: SendHeartbeat_def GetTime_def)
qed

lemma SendHeartbeat_saved:
  assumes "SendHeartbeat e a = Inr (r, a')"
  shows "saved a' = saved a"
proof (cases "session a")
  case None
  let ?a1 = "createSession (EventOS e) (EventEditor e) (a\<lparr>activeClientId := EventId e\<rparr>)"
  from assms None obtain a2 where u: "updateCurrentFile (EventPath e) ?a1 = Inr a2"
    and a': "a' = (snd (GetTime a2))\<lparr>lastHeartbeat := fst (GetTime a2)\<rparr>"
    by (auto simp: SendHeartbeat_def split_beta split: sum.splits)
  from u have "saved a2 = saved a" by (simp add: saved_updateCurrentFile saved_createSession)
  with a' show ?thesis by (simp add: GetTime_def)
next
  case (Some s)
  with assms show ?thesis by (auto simp: SendHeartbeat_def GetTime_def)
qed

lemma EndSession_saved:
  assumes "EndSession e a = Inr (r, a')"
  shows "\<exists>ss. saved a' = saved a @ ss \<and> (\<forall>s' \<in> set ss. Files s' \<noteq> [])"
  using assms saveSession_appends [of a]
  by (auto simp: EndSession_def split: if_splits)

lemma CheckHeartbeat_saved:
  "\<exists>ss. saved (CheckHeartbeat a) = saved a @ ss \<and> (\<forall>s' \<in> set ss. Files s' \<noteq> [])"
proof (cases "session a")
  case None
  then show ?thesis by (simp add: CheckHeartbeat_def CheckHeartbeat_condition_def)
next
  case (Some s)
  let ?a1 = "a\<lparr>clockCalls := Suc (clockCalls a)\<rparr>"
  show ?thesis using Some saveSession_appends [of ?a1]
    by (auto simp: CheckHeartbeat_def CheckHeartbeat_condition_def GetTime_def)
qed

lemma step_saved:
  assumes "step c a = Inr a'"
  shows "\<exists>ss. saved a' = saved a @ ss \<and> (\<forall>s' \<in> set ss. Files s' \<noteq> [])"
proof (cases c)
  case (CallFocusGained e)
  with assms obtain r where "FocusGained e a = Inr (r, a')"
    by (cases "FocusGained e a") auto
  then show ?thesis by (rule FocusGained_saved)
next
  case (CallOpenFile e)
  with assms obtain r where "OpenFile e a = Inr (r, a')"
    by (cases "OpenFile e a") auto
  then show ?thesis by (simp add: OpenFile_saved)
next
  case (CallSendHeartbeat e)
  with assms obtain r where "SendHeartbeat e a = Inr (r, a')"
    by (cases "SendHeartbeat e a") auto
  then show ?thesis by (simp add: SendHeartbeat_saved)
next
  case (CallEndSession e)
  with assms obtain r where "EndSession e a = Inr (r, a')"
    by (cases "EndSession e a") auto
  then show ?thesis by (rule EndSession_saved)
next
  case CallCheckHeartbeat
  with assms show ?thesis using CheckHeartbeat_saved [of a] by auto
qed

text \<open>
  C5. \<open>saveSession\<close> hands the session to the storage's \<open>Save\<close> exactly when the Files
  map is non-empty after the merge of the open files: with an empty merged map (or with
  no session) nothing is handed over, otherwise the closed session is, once. Every call
  of the engine that returns can close a session only through \<open>saveSession\<close>, so every
  session it hands to the storage has a non-empty Files map.
\<close>

theorem only_sessions_with_files_saved:
  "(session a = None \<longrightarrow> saved (saveSession a) = saved a)
   \<and> (\<forall>s. session a = Some s \<longrightarrow>
          (Files (fst (closeSession s a)) = [] \<longrightarrow> saved (saveSession a) = saved a)
        \<and> (Files (fst (closeSession s a)) \<noteq> [] \<longrightarrow>
             saved (saveSession a) = saved a @ [fst (closeSession s a)]))
   \<and> (\<forall>c a'. step c a = Inr a' \<longrightarrow>
          (\<exists>ss. saved a' = saved a @ ss \<and> (\<forall>s' \<in> set ss. Files s' \<noteq> [])))"
  using step_saved [of _ a] by (simp add: saved_saveSession_None saved_saveSession)

theorem only_sessions_with_files_saved_witness:
  "session scenarioApp = Some scenarioSession
   \<and> Files (fst (closeSession scenarioSession scenarioApp)) \<noteq> []
   \<and> saved (saveSession scenarioApp) = saved scenarioApp @ [fst (closeSession scenarioSession scenarioApp)]
   \<and> session (activeApp ''A'' (\<lambda>_. 50)) = Some emptySession
   \<and> Files (fst (closeSession emptySession (activeApp ''A'' (\<lambda>_. 50)))) = []
   \<and> saved (saveSession (activeApp ''A'' (\<lambda>_. 50))) = saved (activeApp ''A'' (\<lambda>_. 50))"
proof -
  have f1: "Files (fst (closeSession scenarioSession scenarioApp)) \<noteq> []"
    by (simp add: scenario_defs closeSession_def mergeFile_def)
  have f2: "Files (fst (closeSession emptySession (activeApp ''A'' (\<lambda>_. 50)))) = []"
    by (simp add: closeSession_def emptySession_def activeApp_def New_def GetTime_def
          archiveCurrentFile_def Let_def)
  from only_sessions_with_files_saved [of scenarioApp] scenario_session f1
  have "saved (saveSession scenarioApp)
          = saved scenarioApp @ [fst (closeSession scenarioSession scenarioApp)]" by blast
  moreover from only_sessions_with_files_saved [of "activeApp ''A'' (\<lambda>_. 50)"] activeApp_session f2
  have "saved (saveSession (activeApp ''A'' (\<lambda>_. 50))) = saved (activeApp ''A'' (\<lambda>_. 50))"
    by blast
  ultimately show ?thesis using scenario_session f1 f2 by (simp add: activeApp_session)
qed

lemma step_failure:
  assumes "step c a = Inl f"
  shows "\<exists>e. c = CallEndSession e \<and> length (activeClientId a) > 1
             \<and> activeClientId a \<noteq> EventId e \<and> f = Fatal a"
proof (cases c)
  case (CallFocusGained e)
  with assms FocusGained_returns [of e a] show ?thesis by auto
next
  case (CallOpenFile e)
  with assms OpenFile_returns [of e a] show ?thesis by auto
next
  case (CallSendHeartbeat e)
  with assms SendHeartbeat_returns [of e a] show ?thesis by auto
next
  case (CallEndSession e)
  with assms show ?thesis by (auto simp: EndSession_def split: if_splits)
next
  case CallCheckHeartbeat
  with assms show ?thesis by simp
qed

lemma closeSession_storageErr:
  "closeSession s (a\<lparr>storageErr := serr\<rparr>) =
     (fst (closeSession s a), (snd (closeSession s a))\<lparr>storageErr := serr\<rparr>)"
  by (simp add: closeSession_eq Let_def)

lemma saveSession_storageErr:
  "saveSession (a\<lparr>storageErr := serr\<rparr>) =
     (saveSession a)\<lparr>storageErr := serr,
        errorsLogged := errorsLogged (saveSession (a\<lparr>storageErr := serr\<rparr>))\<rparr>"
  by (cases "session a")
     (simp_all add: saveSession_def resetApp_def storageSave_def closeSession_storageErr
        closeSession_eq Let_def)

text \<open>
  C6. After \<open>saveSession\<close> the engine is idle, whatever happened: the session is gone
  and the active client id is empty, be the session absent, dropped as empty, saved or
  refused by the storage. An error of \<open>Save\<close> is only logged: the state after
  \<open>saveSession\<close> is the same for every behaviour of the storage, up to the storage itself
  and the count of logged errors. No call of the engine fails because of it: the only
  call that does not return is an EndSession that meets the ordering violation.
\<close>

theorem saveSession_returns_to_idle:
  "session (saveSession a) = None \<and> activeClientId (saveSession a) = []
   \<and> saveSession (a\<lparr>storageErr := serr\<rparr>) =
       (saveSession a)\<lparr>storageErr := serr,
          errorsLogged := errorsLogged (saveSession (a\<lparr>storageErr := serr\<rparr>))\<rparr>
   \<and> (\<forall>c f. step c a = Inl f \<longrightarrow>
          (\<exists>e. c = CallEndSession e \<and> length (activeClientId a) > 1
               \<and> activeClientId a \<noteq> EventId e \<and> f = Fatal a))"
  using step_failure [of _ a] saveSession_storageErr [where a = a and serr = serr]
  by (simp add: session_saveSession activeClientId_saveSession)

theorem saveSession_returns_to_idle_witness:
  "step (CallEndSession (testEvent ''BB'' [])) (activeApp ''AA'' (\<lambda>_. 50))
     = Inl (Fatal (activeApp ''AA'' (\<lambda>_. 50)))
   \<and> (\<exists>e. CallEndSession (testEvent ''BB'' []) = CallEndSession e
         \<and> length (activeClientId (activeApp ''AA'' (\<lambda>_. 50))) > 1
         \<and> activeClientId (activeApp ''AA'' (\<lambda>_. 50)) \<noteq> EventId e)"
proof -
  have h: "step (CallEndSession (testEvent ''BB'' [])) (activeApp ''AA'' (\<lambda>_. 50))
             = Inl (Fatal (activeApp ''AA'' (\<lambda>_. 50)))"
    by (simp add: EndSession_def activeApp_def New_def testEvent_def)
  from saveSession_returns_to_idle [where a = "activeApp ''AA'' (\<lambda>_. 50)"] h
  show ?thesis by blast
qed

section \<open>Reachable states\<close>

text \<open>
  Whatever calls the engine has served since \<open>New\<close>, an active session has an empty
  Files map, which is the assumption under which the merged durations are proved.
\<close>

lemma filesEmpty_saveSession: "filesEmpty (saveSession a)"
  by (simp add: filesEmpty_def session_saveSession)

lemma filesEmpty_createSession: "filesEmpty (createSession os editor a)"
  by (simp add: filesEmpty_def createSession_def timeNow_def)

lemma filesEmpty_updateCurrentFile:
  "filesEmpty a \<Longrightarrow> updateCurrentFile path a = Inr a' \<Longrightarrow> filesEmpty a'"
  by (auto simp: filesEmpty_def updateCurrentFile_def GetTime_def archiveCurrentFile_def Let_def
        split: option.splits)

lemma filesEmpty_FocusGained:
  assumes "filesEmpty a" and "FocusGained e a = Inr (r, a')"
  shows "filesEmpty a'"
proof (cases "activeClientId a = EventId e")
  case True
  with assms show ?thesis by (auto simp: FocusGained_def GetTime_def filesEmpty_def)
next
  case False
  let ?a2 = "a\<lparr>clockCalls := Suc (clockCalls a), lastHeartbeat := clock a (clockCalls a)\<rparr>"
  let ?a3 = "if session ?a2 \<noteq> None then saveSession ?a2 else ?a2"
  let ?a5 = "createSession (EventOS e) (EventEditor e) (?a3\<lparr>activeClientId := EventId e\<rparr>)"
  from assms(2) False have "updateCurrentFile (EventPath e) ?a5 = Inr a'"
    by (auto simp: FocusGained_def GetTime_def Let_def split: sum.splits)
  with filesEmpty_createSession show ?thesis by (rule filesEmpty_updateCurrentFile)
qed

lemma filesEmpty_OpenFile:
  assumes "filesEmpty a" and "OpenFile e a = Inr (r, a')"
  shows "filesEmpty a'"
proof -
  let ?a2 = "a\<lparr>clockCalls := Suc (clockCalls a), lastHeartbeat := clock a (clockCalls a)\<rparr>"
  let ?a3 = "if session ?a2 = None
             then createSession (EventOS e) (EventEditor e) (?a2\<lparr>activeClientId := EventId e\<rparr>)
             else ?a2"
  from assms(2) have u: "updateCurrentFile (EventPath e) ?a3 = Inr a'"
    by (auto simp: OpenFile_def GetTime_def Let_def split: sum.splits)
  have "filesEmpty ?a3"
    using assms(1) by (auto simp: filesEmpty_createSession) (simp add: filesEmpty_def)
  then show ?thesis using u by (rule filesEmpty_updateCurrentFile)
qed

lemma filesEmpty_SendHeartbeat:
  assumes "filesEmpty a" and "SendHeartbeat e a = Inr (r, a')"
  shows "filesEmpty a'"
proof (cases "session a")
  case None
  let ?a1 = "createSession (EventOS e) (EventEditor e) (a\<lparr>activeClientId := EventId e\<rparr>)"
  from assms(2) None obtain a2 where u: "updateCurrentFile (EventPath e) ?a1 = Inr a2"
    and a': "a' = (snd (GetTime a2))\<lparr>lastHeartbeat := fst (GetTime a2)\<rparr>"
    by (auto simp: SendHeartbeat_def split_beta split: sum.splits)
  from filesEmpty_createSession u have "filesEmpty a2" by (rule filesEmpty_updateCurrentFile)
  with a' show ?thesis by (simp add: filesEmpty_def GetTime_def)
next
  case (Some s)
  with assms show ?thesis by (auto simp: SendHeartbeat_def GetTime_def filesEmpty_def)
qed

lemma filesEmpty_step:
  assumes "filesEmpty a" and "step c a = Inr a'"
  shows "filesEmpty a'"
proof (cases c)
  case (CallFocusGained e)
  with assms(2) obtain r where "FocusGained e a = Inr (r, a')"
    by (cases "FocusGained e a") auto
  with assms(1) show ?thesis by (rule filesEmpty_FocusGained)
next
  case (CallOpenFile e)
  with assms(2) obtain r where "OpenFile e a = Inr (r, a')"
    by (cases "OpenFile e a") auto
  with assms(1) show ?thesis by (rule filesEmpty_OpenFile)
next
  case (CallSendHeartbeat e)
  with assms(2) obtain r where "SendHeartbeat e a = Inr (r, a')"
    by (cases "SendHeartbeat e a") auto
  with assms(1) show ?thesis by (rule filesEmpty_SendHeartbeat)
next
  case (CallEndSession e)
  with assms show ?thesis
    by (auto simp: EndSession_def filesEmpty_saveSession split: if_splits)
next
  case CallCheckHeartbeat
  with assms show ?thesis
    by (auto simp: CheckHeartbeat_def CheckHeartbeat_condition_def GetTime_def session_saveSession
          filesEmpty_def split: option.splits if_splits)
qed

lemma filesEmpty_run: "filesEmpty a \<Longrightarrow> run cs a = Inr a' \<Longrightarrow> filesEmpty a'"
proof (induction cs arbitrary: a)
  case Nil
  then show ?case by simp
next
  case (Cons c cs)
  then show ?case by (auto split: sum.splits dest: filesEmpty_step)
qed

lemma reachable_Files_empty:
  assumes "run cs (New clk wall rd serr) = Inr a" and "session a = Some s"
  shows "Files s = []"
proof -
  have "filesEmpty (New clk wall rd serr)" by (simp add: filesEmpty_def New_def)
  then have "filesEmpty a" using assms(1) by (rule filesEmpty_run)
  with assms(2) show ?thesis by (simp add: filesEmpty_def)
qed

section \<open>EndSession from another client\<close>

lemma EndSession_ordering_violation:
  "1 < length (activeClientId a) \<Longrightarrow> activeClientId a \<noteq> EventId e \<Longrightarrow>
   EndSession e a = Inl (Fatal a)"
  by (simp add: EndSession_def)

text \<open>
  C1. EndSession signals the fatal error for a differing client only when the active
  client id has more than one character: the code tests \<^verbatim>\<open>len(app.activeClientId) > 1\<close>.
  An active client id of one character escapes the test: with active client \<open>A\<close>, the
  EndSession of client \<open>B\<close> is not fatal, it closes the session of \<open>A\<close> and reports
  success.
\<close>

theorem EndSession_one_character_client:
  "activeClientId (activeApp ''A'' (\<lambda>_. 50)) = ''A''
   \<and> EventId (testEvent ''B'' []) = ''B''
   \<and> session (activeApp ''A'' (\<lambda>_. 50)) = Some emptySession
   \<and> EndSession (testEvent ''B'' []) (activeApp ''A'' (\<lambda>_. 50))
       = Inr (Some ''The session was ended successfully.'', saveSession (activeApp ''A'' (\<lambda>_. 50)))
   \<and> session (saveSession (activeApp ''A'' (\<lambda>_. 50))) = None
   \<and> activeClientId (saveSession (activeApp ''A'' (\<lambda>_. 50))) = []"
  by (simp add: EndSession_def activeApp_session session_saveSession activeClientId_saveSession)
     (simp add: activeApp_def New_def testEvent_def)

section \<open>The heartbeat check\<close>

lemma Milliseconds_HeartbeatTTL: "Milliseconds HeartbeatTTL = 600000"
  by (simp add: Milliseconds_def HeartbeatTTL_def signed_divide_int_def)

lemma sint_add_in_range:
  fixes x y :: int64
  assumes "- (2 ^ 63) \<le> sint x + sint y" and "sint x + sint y < 2 ^ 63"
  shows "sint (x + y) = sint x + sint y"
  using assms by (simp add: sint_word_ariths signed_take_bit_int_eq_self)

lemma sint_sub_in_range:
  fixes x y :: int64
  assumes "- (2 ^ 63) \<le> sint x - sint y" and "sint x - sint y < 2 ^ 63"
  shows "sint (x - y) = sint x - sint y"
  using assms by (simp add: sint_word_ariths signed_take_bit_int_eq_self)

lemma sint64_bounds:
  fixes x :: int64
  shows "- (2 ^ 63) \<le> sint x" and "sint x < 2 ^ 63"
  using sint_ge [of x] sint_lt [of x] by simp_all

lemma sint_ttl: "sint (Milliseconds HeartbeatTTL) = 600000"
  by (simp add: Milliseconds_HeartbeatTTL)

text \<open>Staleness as the code tests it, against the difference of the two readings.\<close>

lemma stale_if:
  fixes last now :: int64
  assumes "600000 < sint now - sint last"
  shows "last + Milliseconds HeartbeatTTL <s now"
proof -
  have "sint last + 600000 < 2 ^ 63" using assms sint64_bounds(2) [of now] by linarith
  moreover have "- (2 ^ 63) \<le> sint last + 600000" using sint64_bounds(1) [of last] by linarith
  ultimately have "sint (last + Milliseconds HeartbeatTTL) = sint last + 600000"
    using sint_add_in_range [of last "Milliseconds HeartbeatTTL"] by (simp add: sint_ttl)
  with assms show ?thesis by (simp add: word_sless_alt)
qed

lemma stale_only_if:
  fixes last now :: int64
  assumes "sint last + 600000 < 2 ^ 63" and "last + Milliseconds HeartbeatTTL <s now"
  shows "600000 < sint now - sint last"
proof -
  have "- (2 ^ 63) \<le> sint last + 600000" using sint64_bounds(1) [of last] by linarith
  with assms(1) have "sint (last + Milliseconds HeartbeatTTL) = sint last + 600000"
    using sint_add_in_range [of last "Milliseconds HeartbeatTTL"] by (simp add: sint_ttl)
  with assms(2) show ?thesis by (simp add: word_sless_alt)
qed

lemma CheckHeartbeat_cases:
  assumes "session a = Some s"
  shows "CheckHeartbeat a =
           (if lastHeartbeat a + Milliseconds HeartbeatTTL <s clock a (clockCalls a)
            then saveSession (snd (GetTime a)) else snd (GetTime a))"
  using assms by (simp add: CheckHeartbeat_def CheckHeartbeat_condition_def GetTime_def)

lemma saved_CheckHeartbeat_stale:
  assumes "session a = Some s"
      and "lastHeartbeat a + Milliseconds HeartbeatTTL <s clock a (clockCalls a)"
  shows "saved (CheckHeartbeat a) =
           (if Files (fst (closeSession s (snd (GetTime a)))) = [] then saved a
            else saved a @ [fst (closeSession s (snd (GetTime a)))])"
proof -
  have "session (snd (GetTime a)) = Some s" using assms(1) by (simp add: GetTime_def)
  then have "saved (saveSession (snd (GetTime a))) =
           (if Files (fst (closeSession s (snd (GetTime a)))) = [] then saved (snd (GetTime a))
            else saved (snd (GetTime a)) @ [fst (closeSession s (snd (GetTime a)))])"
    by (rule saved_saveSession)
  moreover have "saved (snd (GetTime a)) = saved a" by (simp add: GetTime_def)
  ultimately show ?thesis using assms by (simp add: CheckHeartbeat_cases)
qed

text \<open>
  C3. With an active session, \<open>CheckHeartbeat\<close> closes the session, by the
  close path \<open>saveSession\<close>, whenever the clock's reading minus the last heartbeat is
  greater than the time to live of 600000 ms; the closed session is persisted exactly
  when its merged Files map is non-empty, and dropped otherwise. When the difference is
  exactly the time to live, the session stays open and nothing is persisted. The code
  compares \<open>lastHeartbeat + TTL < now\<close> in \<open>int64\<close>: provided that sum does not exceed the
  largest \<open>int64\<close>, the session is closed if and only if the difference is greater than
  the time to live, and it is persisted if and only if, in addition, its merged Files map
  is non-empty.
\<close>

theorem CheckHeartbeat_closes_iff_stale:
  assumes "session a = Some s"
  shows "(sint (Milliseconds HeartbeatTTL) < sint (clock a (clockCalls a)) - sint (lastHeartbeat a)
            \<longrightarrow> CheckHeartbeat a = saveSession (snd (GetTime a))
                \<and> session (CheckHeartbeat a) = None
                \<and> activeClientId (CheckHeartbeat a) = []
                \<and> saved (CheckHeartbeat a) =
                    (if Files (fst (closeSession s (snd (GetTime a)))) = [] then saved a
                     else saved a @ [fst (closeSession s (snd (GetTime a)))]))
       \<and> (sint (clock a (clockCalls a)) - sint (lastHeartbeat a) = sint (Milliseconds HeartbeatTTL)
            \<longrightarrow> CheckHeartbeat a = snd (GetTime a)
                \<and> session (CheckHeartbeat a) = Some s \<and> saved (CheckHeartbeat a) = saved a)
       \<and> (sint (lastHeartbeat a) + sint (Milliseconds HeartbeatTTL) < 2 ^ 63
            \<longrightarrow> (session (CheckHeartbeat a) = None
                   \<longleftrightarrow> sint (Milliseconds HeartbeatTTL)
                         < sint (clock a (clockCalls a)) - sint (lastHeartbeat a))
                \<and> (saved (CheckHeartbeat a) \<noteq> saved a
                   \<longleftrightarrow> sint (Milliseconds HeartbeatTTL)
                         < sint (clock a (clockCalls a)) - sint (lastHeartbeat a)
                       \<and> Files (fst (closeSession s (snd (GetTime a)))) \<noteq> [])
                \<and> (sint (clock a (clockCalls a)) - sint (lastHeartbeat a)
                     \<le> sint (Milliseconds HeartbeatTTL)
                    \<longrightarrow> CheckHeartbeat a = snd (GetTime a)
                        \<and> session (CheckHeartbeat a) = Some s
                        \<and> saved (CheckHeartbeat a) = saved a))"
proof -
  let ?now = "clock a (clockCalls a)" and ?last = "lastHeartbeat a"
  let ?stale = "?last + Milliseconds HeartbeatTTL <s ?now"
  let ?s' = "fst (closeSession s (snd (GetTime a)))"
  have open_: "CheckHeartbeat a = snd (GetTime a) \<and> session (CheckHeartbeat a) = Some s
               \<and> saved (CheckHeartbeat a) = saved a" if "\<not> ?stale"
    using that assms by (simp add: CheckHeartbeat_cases GetTime_def)
  have closed: "CheckHeartbeat a = saveSession (snd (GetTime a))
               \<and> session (CheckHeartbeat a) = None
               \<and> activeClientId (CheckHeartbeat a) = []
               \<and> saved (CheckHeartbeat a) =
                    (if Files ?s' = [] then saved a else saved a @ [?s'])"
    if "?stale"
    using that assms saved_CheckHeartbeat_stale [OF assms that]
    by (simp add: CheckHeartbeat_cases session_saveSession activeClientId_saveSession)
  have c1: "?stale" if "600000 < sint ?now - sint ?last"
    using that by (rule stale_if)
  have c2: "\<not> ?stale" if "sint ?now - sint ?last = 600000"
  proof
    assume st: "?stale"
    have "sint ?last + 600000 < 2 ^ 63" using that sint64_bounds(2) [of ?now] by linarith
    from stale_only_if [OF this st] that show False by simp
  qed
  have c3: "\<not> ?stale" if "sint ?last + 600000 < 2 ^ 63" "sint ?now - sint ?last \<le> 600000"
    using stale_only_if [OF that(1)] that(2) by fastforce
  have part1: "600000 < sint ?now - sint ?last
            \<longrightarrow> CheckHeartbeat a = saveSession (snd (GetTime a))
                \<and> session (CheckHeartbeat a) = None
                \<and> activeClientId (CheckHeartbeat a) = []
                \<and> saved (CheckHeartbeat a) =
                    (if Files ?s' = [] then saved a else saved a @ [?s'])"
    using closed c1 by blast
  have part2: "sint ?now - sint ?last = 600000
            \<longrightarrow> CheckHeartbeat a = snd (GetTime a)
                \<and> session (CheckHeartbeat a) = Some s \<and> saved (CheckHeartbeat a) = saved a"
    using open_ c2 by blast
  have part3: "(session (CheckHeartbeat a) = None \<longleftrightarrow> 600000 < sint ?now - sint ?last)
             \<and> (saved (CheckHeartbeat a) \<noteq> saved a
                   \<longleftrightarrow> 600000 < sint ?now - sint ?last \<and> Files ?s' \<noteq> [])
             \<and> (sint ?now - sint ?last \<le> 600000
                    \<longrightarrow> CheckHeartbeat a = snd (GetTime a)
                        \<and> session (CheckHeartbeat a) = Some s
                        \<and> saved (CheckHeartbeat a) = saved a)"
    if r: "sint ?last + 600000 < 2 ^ 63"
  proof (cases "600000 < sint ?now - sint ?last")
    case True
    with part1 have cl: "session (CheckHeartbeat a) = None"
      and sv: "saved (CheckHeartbeat a) = (if Files ?s' = [] then saved a else saved a @ [?s'])"
      by blast+
    have "saved (CheckHeartbeat a) \<noteq> saved a \<longleftrightarrow> Files ?s' \<noteq> []"
      unfolding sv by (cases "Files ?s' = []") simp_all
    with cl True show ?thesis by simp
  next
    case False
    then have "\<not> ?stale" using c3 [OF r] by simp
    with open_ False show ?thesis by auto
  qed
  show ?thesis
    unfolding sint_ttl using part1 part2 part3 by blast
qed

lemmas focused_defs = focusedApp_def focusedSession_def New_def testEvent_def testReader_def
  FocusGained_def GetTime_def createSession_def timeNow_def updateCurrentFile_def
  archiveCurrentFile_def Let_def

lemma focusedApp_fields:
  "session (focusedApp later) = Some focusedSession"
  "lastHeartbeat (focusedApp later) = 0"
  "clock (focusedApp later) (clockCalls (focusedApp later)) = later"
  "saved (focusedApp later) = []"
  by (simp_all add: focused_defs)

lemma focusedApp_saved:
  "length (saved (saveSession (snd (GetTime (focusedApp later))))) = 1"
  by (simp add: focused_defs saveSession_def closeSession_def mergeFile_def resetApp_def
        storageSave_def)

theorem CheckHeartbeat_closes_iff_stale_witness:
  "session (focusedApp 600001) = Some focusedSession
   \<and> sint (Milliseconds HeartbeatTTL) < sint (600001 :: int64) - sint (0 :: int64)
   \<and> session (CheckHeartbeat (focusedApp 600001)) = None
   \<and> length (saved (CheckHeartbeat (focusedApp 600001))) = 1
   \<and> session (focusedApp 600000) = Some focusedSession
   \<and> sint (600000 :: int64) - sint (0 :: int64) = sint (Milliseconds HeartbeatTTL)
   \<and> session (CheckHeartbeat (focusedApp 600000)) = Some focusedSession
   \<and> saved (CheckHeartbeat (focusedApp 600000)) = []"
proof -
  have stale: "sint (Milliseconds HeartbeatTTL)
      < sint (clock (focusedApp 600001) (clockCalls (focusedApp 600001)))
        - sint (lastHeartbeat (focusedApp 600001))"
    by (simp add: focusedApp_fields sint_ttl)
  have exact: "sint (clock (focusedApp 600000) (clockCalls (focusedApp 600000)))
        - sint (lastHeartbeat (focusedApp 600000)) = sint (Milliseconds HeartbeatTTL)"
    by (simp add: focusedApp_fields sint_ttl)
  from CheckHeartbeat_closes_iff_stale [OF focusedApp_fields(1), of 600001] stale
  have closed: "CheckHeartbeat (focusedApp 600001) = saveSession (snd (GetTime (focusedApp 600001)))"
    and gone: "session (CheckHeartbeat (focusedApp 600001)) = None"
    by blast+
  have persisted: "length (saved (CheckHeartbeat (focusedApp 600001))) = 1"
    unfolding closed by (rule focusedApp_saved)
  from CheckHeartbeat_closes_iff_stale [OF focusedApp_fields(1), of 600000] exact
  have kept: "session (CheckHeartbeat (focusedApp 600000)) = Some focusedSession"
    and untouched: "saved (CheckHeartbeat (focusedApp 600000)) = saved (focusedApp 600000)"
    by blast+
  show ?thesis
    using gone persisted kept untouched by (simp add: focusedApp_fields sint_ttl)
qed

text \<open>
  That the session is closed and persisted if and only if the difference is greater
  than the time to live does not hold in every state; it fails in two. After a FocusGained
  on a path the reader cannot resolve the session has no file: 700000 ms after the last
  heartbeat \<open>CheckHeartbeat\<close> closes it and persists nothing. With the last heartbeat at
  the largest \<open>int64\<close> the sum \<open>lastHeartbeat + TTL\<close> wraps to a negative number, and the
  session is closed although the difference is below the time to live.
\<close>

theorem CheckHeartbeat_closes_iff_stale_counterexample:
  "session unresolvedApp = Some emptySession
   \<and> sint (Milliseconds HeartbeatTTL)
       < sint (clock unresolvedApp (clockCalls unresolvedApp)) - sint (lastHeartbeat unresolvedApp)
   \<and> session (CheckHeartbeat unresolvedApp) = None
   \<and> saved (CheckHeartbeat unresolvedApp) = saved unresolvedApp
   \<and> session wrappedApp = Some emptySession
   \<and> sint (clock wrappedApp (clockCalls wrappedApp)) - sint (lastHeartbeat wrappedApp)
       < sint (Milliseconds HeartbeatTTL)
   \<and> session (CheckHeartbeat wrappedApp) = None"
proof -
  have u: "session unresolvedApp = Some emptySession"
    "lastHeartbeat unresolvedApp = 0"
    "clock unresolvedApp (clockCalls unresolvedApp) = 700000"
    "saved unresolvedApp = []"
    by (simp_all add: unresolvedApp_def emptySession_def New_def testEvent_def FocusGained_def
          GetTime_def createSession_def timeNow_def updateCurrentFile_def Let_def)
  have uc: "session (CheckHeartbeat unresolvedApp) = None
            \<and> saved (CheckHeartbeat unresolvedApp) = saved unresolvedApp"
    by (simp add: unresolvedApp_def emptySession_def New_def testEvent_def FocusGained_def
          GetTime_def createSession_def timeNow_def updateCurrentFile_def Let_def
          CheckHeartbeat_def CheckHeartbeat_condition_def Milliseconds_HeartbeatTTL
          word_sless_alt saveSession_def closeSession_def archiveCurrentFile_def resetApp_def)
  have w: "session wrappedApp = Some emptySession"
    "lastHeartbeat wrappedApp = 9223372036854775807"
    "clock wrappedApp (clockCalls wrappedApp) = 0"
    by (simp_all add: wrappedApp_def activeApp_def New_def)
  have wc: "session (CheckHeartbeat wrappedApp) = None"
    by (simp add: CheckHeartbeat_def CheckHeartbeat_condition_def wrappedApp_def activeApp_def
          New_def GetTime_def Milliseconds_HeartbeatTTL session_saveSession word_sless_alt)
  show ?thesis using uc wc by (simp add: u w sint_ttl)
qed

section \<open>The heartbeat check and the mutex\<close>

text \<open>
  C9. \<open>CheckHeartbeat\<close> evaluates its condition before it takes the mutex, so a whole
  operation of another caller fits between the condition and the close. With the session
  of client \<open>A\<close> stale, the condition holds; a SendHeartbeat of \<open>A\<close> that runs next sets the
  last heartbeat to the clock's reading and keeps the session; the \<open>saveSession\<close> that
  \<open>CheckHeartbeat\<close> then runs under the mutex clears that session, although a
  \<open>CheckHeartbeat\<close> run alone in the state after the heartbeat leaves it open.
\<close>

theorem CheckHeartbeat_condition_before_lock:
  "CheckHeartbeat_condition staleApp = (True, staleApp\<lparr>clockCalls := 1\<rparr>)
   \<and> SendHeartbeat (testEvent ''A'' []) (staleApp\<lparr>clockCalls := 1\<rparr>)
       = Inr (Some ''Successfully sent heartbeat'',
              staleApp\<lparr>clockCalls := 2, lastHeartbeat := 700000\<rparr>)
   \<and> session (staleApp\<lparr>clockCalls := 2, lastHeartbeat := 700000\<rparr>) = Some emptySession
   \<and> session (saveSession (staleApp\<lparr>clockCalls := 2, lastHeartbeat := 700000\<rparr>)) = None
   \<and> session (CheckHeartbeat (staleApp\<lparr>clockCalls := 2, lastHeartbeat := 700000\<rparr>))
       = Some emptySession"
  by (simp add: CheckHeartbeat_def CheckHeartbeat_condition_def staleApp_def activeApp_def New_def
        GetTime_def SendHeartbeat_def Milliseconds_HeartbeatTTL session_saveSession word_sless_alt)

section \<open>The two clocks of a session\<close>

lemma mergeFile_nonempty: "fst (mergeFile f fh) \<noteq> []"
  by (cases fh) (auto simp: mergeFile_def split: option.splits)

lemma mergeFiles_keeps_nonempty: "fst fh \<noteq> [] \<Longrightarrow> fst (mergeFiles fs fh) \<noteq> []"
  by (induction fs arbitrary: fh) (simp_all add: mergeFile_nonempty)

lemma mergeFiles_nonempty: "fs \<noteq> [] \<Longrightarrow> fst (mergeFiles fs fh) \<noteq> []"
  by (cases fs) (simp_all add: mergeFiles_keeps_nonempty mergeFile_nonempty)

lemma closeSession_times:
  "EndedAt (fst (closeSession s a)) = clock a (clockCalls a)"
  "StartedAt (fst (closeSession s a)) = StartedAt s"
  "SessionDurationMs (fst (closeSession s a)) = clock a (clockCalls a) - StartedAt s"
  by (simp_all add: closeSession_eq Let_def)

lemma closeSession_files_nonempty:
  "CurrentFile s \<noteq> None \<or> OpenFiles s \<noteq> [] \<Longrightarrow> Files (fst (closeSession s a)) \<noteq> []"
  by (auto simp: closeSession_eq Let_def archived_def intro!: mergeFiles_nonempty)

lemma createSession_StartedAt:
  "\<exists>s0. session (createSession os editor a0) = Some s0
        \<and> StartedAt s0 = wallClock a0 (wallCalls a0)"
  by (simp add: createSession_def timeNow_def)

lemma negative_difference:
  fixes e st :: int64
  assumes "e <s st" and "- (2 ^ 63) \<le> sint e - sint st"
  shows "e - st <s 0"
proof -
  have "sint e - sint st < 2 ^ 63" using assms(1) by (simp add: word_sless_alt)
  with assms(2) have "sint (e - st) = sint e - sint st" by (rule sint_sub_in_range)
  with assms(1) show ?thesis by (simp add: word_sless_alt)
qed

text \<open>
  C10. \<open>createSession\<close> takes \<open>StartedAt\<close> from the system's wall clock and does not
  read the injected clock; \<open>saveSession\<close> takes \<open>EndedAt\<close> from the injected clock and
  sets the duration to \<open>EndedAt - StartedAt\<close>. So when the injected clock reads
  earlier than the session's start (and the difference fits \<open>int64\<close>), a session with a
  file is handed to the storage with \<open>EndedAt < StartedAt\<close> and a negative duration.
\<close>

theorem session_times_from_two_clocks:
  "(\<exists>s0. session (createSession os editor a0) = Some s0
         \<and> StartedAt s0 = wallClock a0 (wallCalls a0))
   \<and> clockCalls (createSession os editor a0) = clockCalls a0
   \<and> (\<forall>s. session a = Some s \<longrightarrow>
          EndedAt (fst (closeSession s a)) = clock a (clockCalls a)
        \<and> StartedAt (fst (closeSession s a)) = StartedAt s
        \<and> SessionDurationMs (fst (closeSession s a)) = clock a (clockCalls a) - StartedAt s)
   \<and> (\<forall>s. session a = Some s \<and> (CurrentFile s \<noteq> None \<or> OpenFiles s \<noteq> [])
          \<and> clock a (clockCalls a) <s StartedAt s
          \<and> - (2 ^ 63) \<le> sint (clock a (clockCalls a)) - sint (StartedAt s) \<longrightarrow>
          (\<exists>s'. saved (saveSession a) = saved a @ [s']
              \<and> StartedAt s' = StartedAt s \<and> EndedAt s' = clock a (clockCalls a)
              \<and> EndedAt s' <s StartedAt s' \<and> SessionDurationMs s' <s 0))"
proof -
  have "\<exists>s'. saved (saveSession a) = saved a @ [s']
              \<and> StartedAt s' = StartedAt s \<and> EndedAt s' = clock a (clockCalls a)
              \<and> EndedAt s' <s StartedAt s' \<and> SessionDurationMs s' <s 0"
    if h: "session a = Some s" "CurrentFile s \<noteq> None \<or> OpenFiles s \<noteq> []"
      "clock a (clockCalls a) <s StartedAt s"
      "- (2 ^ 63) \<le> sint (clock a (clockCalls a)) - sint (StartedAt s)" for s
  proof -
    have "saved (saveSession a) = saved a @ [fst (closeSession s a)]"
      using h(1) closeSession_files_nonempty [OF h(2)] by (simp add: saved_saveSession)
    moreover have "SessionDurationMs (fst (closeSession s a)) <s 0"
      using negative_difference [OF h(3) h(4)] by (simp add: closeSession_times)
    ultimately show ?thesis using h(3) by (simp add: closeSession_times)
  qed
  then show ?thesis
    using createSession_StartedAt [of os editor a0]
    by (simp add: closeSession_times createSession_def timeNow_def)
qed

lemma skewed_session: "session skewedApp = Some skewedSession"
  by (simp add: skewedApp_def skewedSession_def New_def testEvent_def testReader_def OpenFile_def
        GetTime_def createSession_def timeNow_def updateCurrentFile_def archiveCurrentFile_def Let_def)

lemma skewed_clock: "clock skewedApp (clockCalls skewedApp) = 0"
  by (simp add: skewedApp_def skewedSession_def New_def testEvent_def testReader_def OpenFile_def
        GetTime_def createSession_def timeNow_def updateCurrentFile_def archiveCurrentFile_def Let_def)

theorem session_times_from_two_clocks_witness:
  "session skewedApp = Some skewedSession
   \<and> CurrentFile skewedSession = Some 0
   \<and> clock skewedApp (clockCalls skewedApp) <s StartedAt skewedSession
   \<and> - (2 ^ 63) \<le> sint (clock skewedApp (clockCalls skewedApp)) - sint (StartedAt skewedSession)
   \<and> (\<exists>s'. saved (saveSession skewedApp) = saved skewedApp @ [s']
          \<and> StartedAt s' = 1000 \<and> EndedAt s' = 0
          \<and> EndedAt s' <s StartedAt s' \<and> SessionDurationMs s' <s 0)"
proof -
  have h: "session skewedApp = Some skewedSession
     \<and> CurrentFile skewedSession = Some 0
     \<and> clock skewedApp (clockCalls skewedApp) <s StartedAt skewedSession
     \<and> - (2 ^ 63) \<le> sint (clock skewedApp (clockCalls skewedApp)) - sint (StartedAt skewedSession)"
    by (simp add: skewed_session skewed_clock) (simp add: skewedSession_def word_sless_alt)
  then have "session skewedApp = Some skewedSession
     \<and> (CurrentFile skewedSession \<noteq> None \<or> OpenFiles skewedSession \<noteq> [])
     \<and> clock skewedApp (clockCalls skewedApp) <s StartedAt skewedSession
     \<and> - (2 ^ 63) \<le> sint (clock skewedApp (clockCalls skewedApp)) - sint (StartedAt skewedSession)"
    by simp
  with session_times_from_two_clocks [where a = skewedApp]
  have "\<exists>s'. saved (saveSession skewedApp) = saved skewedApp @ [s']
              \<and> StartedAt s' = StartedAt skewedSession
              \<and> EndedAt s' = clock skewedApp (clockCalls skewedApp)
              \<and> EndedAt s' <s StartedAt s' \<and> SessionDurationMs s' <s 0"
    by blast
  then have "\<exists>s'. saved (saveSession skewedApp) = saved skewedApp @ [s']
          \<and> StartedAt s' = 1000 \<and> EndedAt s' = 0
          \<and> EndedAt s' <s StartedAt s' \<and> SessionDurationMs s' <s 0"
    by (simp add: skewed_clock skewedSession_def)
  with h show ?thesis by simp
qed

section \<open>Aggregation by day\<close>

lemma truncate_Day_midnight:
  assumes "- (2 ^ 63) + 86400000 \<le> sint t"
  shows "sint (truncate_Day t) mod 86400000 = 0
       \<and> sint (truncate_Day t) \<le> sint t
       \<and> sint t < sint (truncate_Day t) + 86400000"
proof -
  let ?k = "sint t - sint t mod 86400000"
  have m: "0 \<le> sint t mod 86400000" "sint t mod 86400000 < 86400000" by simp_all
  have "- (2 ^ 63) \<le> ?k" using assms m by linarith
  moreover have "?k < 2 ^ 63" using sint64_bounds(2) [of t] m by linarith
  ultimately have k: "sint (truncate_Day t) = ?k"
    unfolding truncate_Day_def
    by (subst sint_sbintrunc') (simp add: signed_take_bit_int_eq_self)
  have "?k mod 86400000 = 0" by (simp add: minus_mod_eq_mult_div)
  with k m show ?thesis by simp
qed

lemma rawSessions_days:
  "map (\<lambda>s. truncate_Day (RawStartedAt s)) rawSessions = [0, 86400000, 0]"
  by (simp add: rawSessions_def rawSession_def truncate_Day_def)

lemma rawSessions_Aggregate:
  "map (\<lambda>a. (Date a, TotalTimeMs a)) (Aggregate testFormat rawSessions) = [(0, 5100), (86400000, 7)]"
  by (simp add: Aggregate_def groupByDay_def addToBucket_def aggregateBucket_def
        rawSessions_def rawSession_def truncate_Day_def)

lemma totalLoop_sum: "totalLoop ss t = t + sum_list (map RawDurationMs ss)"
  by (induction ss arbitrary: t) (simp_all add: add.assoc)

lemma map_of_addToBucket:
  "map_of (addToBucket s b) d =
     (if d = dayOf s
      then Some (case map_of b d of None \<Rightarrow> [s] | Some xs \<Rightarrow> xs @ [s])
      else map_of b d)"
  by (simp add: addToBucket_def dayOf_def map_of_map_default split: option.splits)

lemma map_of_groupLoop:
  "map_of (groupLoop ss b) d =
     (case map_of b d of
        None \<Rightarrow> (if startedOn d ss = [] then None else Some (startedOn d ss))
      | Some xs \<Rightarrow> Some (xs @ startedOn d ss))"
proof (induction ss arbitrary: b)
  case Nil
  show ?case by (simp add: startedOn_def split: option.splits)
next
  case (Cons s ss)
  show ?case
    by (simp add: Cons.IH map_of_addToBucket startedOn_def split: option.splits)
qed

lemma distinct_addToBucket: "distinct (map fst b) \<Longrightarrow> distinct (map fst (addToBucket s b))"
  by (simp add: addToBucket_def distinct_map_default)

lemma distinct_groupLoop: "distinct (map fst b) \<Longrightarrow> distinct (map fst (groupLoop ss b))"
  by (induction ss arbitrary: b) (simp_all add: distinct_addToBucket)

lemma distinct_groupByDay: "distinct (map fst (groupByDay ss))"
  by (simp add: groupByDay_def distinct_groupLoop)

lemma map_of_groupByDay:
  "map_of (groupByDay ss) d = (if startedOn d ss = [] then None else Some (startedOn d ss))"
  by (simp add: groupByDay_def map_of_groupLoop)

lemma set_groupByDay:
  "set (groupByDay ss) = (\<lambda>d. (d, startedOn d ss)) ` dayOf ` set ss"
proof -
  have "(d, xs) \<in> set (groupByDay ss) \<longleftrightarrow> (d \<in> dayOf ` set ss \<and> xs = startedOn d ss)" for d xs
  proof -
    have "(d, xs) \<in> set (groupByDay ss) \<longleftrightarrow> map_of (groupByDay ss) d = Some xs"
      using distinct_groupByDay [of ss] by simp
    also have "\<dots> \<longleftrightarrow> (startedOn d ss \<noteq> [] \<and> xs = startedOn d ss)"
      by (auto simp: map_of_groupByDay)
    also have "startedOn d ss \<noteq> [] \<longleftrightarrow> d \<in> dayOf ` set ss"
      by (auto simp: startedOn_def filter_empty_conv)
    finally show ?thesis .
  qed
  then show ?thesis by auto
qed


lemma set_Aggregate:
  "set (Aggregate format ss) =
     (\<lambda>d. aggregateBucket format (d, startedOn d ss)) ` dayOf ` set ss"
  by (simp add: Aggregate_def set_groupByDay image_image)

lemma Date_aggregateBucket: "Date (aggregateBucket format (d, xs)) = d"
  by (simp add: aggregateBucket_def)

lemma TotalTimeMs_aggregateBucket:
  "TotalTimeMs (aggregateBucket format (d, xs)) = sum_list (map RawDurationMs xs)"
  by (simp add: aggregateBucket_def totalLoop_sum)

lemma map_Date_Aggregate: "map Date (Aggregate format ss) = map fst (groupByDay ss)"
  by (simp add: Aggregate_def aggregateBucket_def split_beta)

lemma distinct_Aggregate: "distinct (map Date (Aggregate format ss))"
  by (simp add: map_Date_Aggregate distinct_groupByDay)

lemma bucketTotals_map_default:
  "bucketTotals (AList.map_default d [s] (\<lambda>b. b @ [s]) b) = bucketTotals b + RawDurationMs s"
  by (induction b) (simp_all add: bucketTotals_def add.assoc add.left_commute)

lemma bucketTotals_groupLoop:
  "bucketTotals (groupLoop ss b) = bucketTotals b + sum_list (map RawDurationMs ss)"
  by (induction ss arbitrary: b)
     (simp_all add: addToBucket_def bucketTotals_map_default add.assoc)

lemma sum_TotalTimeMs_Aggregate:
  "sum_list (map TotalTimeMs (Aggregate format ss)) = sum_list (map RawDurationMs ss)"
proof -
  have "map TotalTimeMs (Aggregate format ss)
          = map (\<lambda>bucket. sum_list (map RawDurationMs (snd bucket))) (groupByDay ss)"
    by (simp add: Aggregate_def aggregateBucket_def split_beta totalLoop_sum)
  then have "sum_list (map TotalTimeMs (Aggregate format ss)) = bucketTotals (groupByDay ss)"
    by (simp add: bucketTotals_def)
  also have "\<dots> = sum_list (map RawDurationMs ss)"
    using bucketTotals_groupLoop [of ss "[]"] by (simp add: groupByDay_def bucketTotals_def)
  finally show ?thesis .
qed

text \<open>
  C7. Every aggregated session of \<open>Aggregate\<close> is a day bucket: its date is the
  truncated day of the start of some input session, and its total time is the sum of the
  whole durations of exactly the input sessions that started on that day. Every input
  session belongs to exactly one aggregated session, the one of the day it started on,
  so no duration is split: the totals of all buckets add up to the durations of all
  sessions. Sums are Go's, in \<open>int64\<close>.
\<close>

theorem Aggregate_day_buckets:
  "(\<forall>a \<in> set (Aggregate format ss).
       Period a = Day
     \<and> (\<exists>s \<in> set ss. Date a = truncate_Day (RawStartedAt s))
     \<and> TotalTimeMs a
         = sum_list (map RawDurationMs
             (filter (\<lambda>s. truncate_Day (RawStartedAt s) = Date a) ss)))
   \<and> (\<forall>s \<in> set ss.
        \<exists>!a. a \<in> set (Aggregate format ss) \<and> Date a = truncate_Day (RawStartedAt s))
   \<and> distinct (map Date (Aggregate format ss))
   \<and> sum_list (map TotalTimeMs (Aggregate format ss)) = sum_list (map RawDurationMs ss)"
proof -
  have buckets: "Period a = Day
      \<and> (\<exists>s \<in> set ss. Date a = truncate_Day (RawStartedAt s))
      \<and> TotalTimeMs a
          = sum_list (map RawDurationMs
              (filter (\<lambda>s. truncate_Day (RawStartedAt s) = Date a) ss))"
    if "a \<in> set (Aggregate format ss)" for a
  proof -
    from that obtain s where s: "s \<in> set ss"
      and a: "a = aggregateBucket format (dayOf s, startedOn (dayOf s) ss)"
      by (auto simp: set_Aggregate)
    have "Period a = Day" by (simp add: a aggregateBucket_def)
    moreover have "Date a = truncate_Day (RawStartedAt s)"
      by (simp add: a Date_aggregateBucket dayOf_def)
    moreover have "TotalTimeMs a
          = sum_list (map RawDurationMs
              (filter (\<lambda>s. truncate_Day (RawStartedAt s) = Date a) ss))"
      by (simp add: a Date_aggregateBucket TotalTimeMs_aggregateBucket startedOn_def dayOf_def)
    ultimately show ?thesis using s by blast
  qed
  have unique: "\<exists>!a. a \<in> set (Aggregate format ss) \<and> Date a = truncate_Day (RawStartedAt s)"
    if "s \<in> set ss" for s
  proof (rule ex_ex1I)
    have "aggregateBucket format (dayOf s, startedOn (dayOf s) ss) \<in> set (Aggregate format ss)"
      using that by (auto simp: set_Aggregate)
    then show "\<exists>a. a \<in> set (Aggregate format ss) \<and> Date a = truncate_Day (RawStartedAt s)"
      by (auto simp: Date_aggregateBucket dayOf_def)
  next
    fix a b
    assume "a \<in> set (Aggregate format ss) \<and> Date a = truncate_Day (RawStartedAt s)"
      and "b \<in> set (Aggregate format ss) \<and> Date b = truncate_Day (RawStartedAt s)"
    then show "a = b"
      using distinct_Aggregate [of format ss] by (auto simp: distinct_map inj_on_def)
  qed
  show ?thesis
    using buckets unique distinct_Aggregate [of format ss] sum_TotalTimeMs_Aggregate [of format ss]
    by blast
qed

theorem Aggregate_day_buckets_witness:
  "rawSession 86399999 5000 ''/repo/a.go'' \<in> set rawSessions
   \<and> truncate_Day (RawStartedAt (rawSession 86399999 5000 ''/repo/a.go'')) = 0
   \<and> (\<exists>!a. a \<in> set (Aggregate testFormat rawSessions) \<and> Date a = 0)
   \<and> map (\<lambda>a. (Date a, TotalTimeMs a)) (Aggregate testFormat rawSessions)
       = [(0, 5100), (86400000, 7)]"
proof -
  have h: "rawSession 86399999 5000 ''/repo/a.go'' \<in> set rawSessions"
    by (simp add: rawSessions_def)
  have d: "truncate_Day (RawStartedAt (rawSession 86399999 5000 ''/repo/a.go'')) = 0"
    by (simp add: rawSession_def truncate_Day_def)
  from Aggregate_day_buckets [of testFormat rawSessions] h
  have "\<exists>!a. a \<in> set (Aggregate testFormat rawSessions)
            \<and> Date a = truncate_Day (RawStartedAt (rawSession 86399999 5000 ''/repo/a.go''))"
    by blast
  then show ?thesis using h d rawSessions_Aggregate by simp
qed

lemma sum_list_map_mset:
  fixes g :: "'a \<Rightarrow> 'b::comm_monoid_add"
  assumes "mset xs = mset ys"
  shows "sum_list (map g xs) = sum_list (map g ys)"
proof -
  have "sum_list (map g xs) = sum_mset (image_mset g (mset xs))"
    by (simp flip: sum_mset_sum_list)
  also have "\<dots> = sum_mset (image_mset g (mset ys))" by (simp add: assms)
  also have "\<dots> = sum_list (map g ys)" by (simp flip: sum_mset_sum_list)
  finally show ?thesis .
qed

lemma mset_repositoryDurations:
  assumes "mset xs = mset ys"
  shows "mset (repositoryDurations r xs) = mset (repositoryDurations r ys)"
  unfolding repositoryDurations_def mset_concat
  using sum_list_map_mset [OF assms, of "\<lambda>s. mset (map (\<lambda>pf. DurationMs (snd pf))
                          (filter (\<lambda>pf. Repository (snd pf) = r) (RawFiles s)))"]
  by (simp add: comp_def)

lemma sessionRepositories_mset:
  assumes "mset xs = mset ys"
  shows "sessionRepositories xs = sessionRepositories ys"
proof
  fix r
  have m: "mset (repositoryDurations r xs) = mset (repositoryDurations r ys)"
    using assms by (rule mset_repositoryDurations)
  then have "repositoryDurations r xs = [] \<longleftrightarrow> repositoryDurations r ys = []"
    by (metis mset_zero_iff)
  moreover have "sum_list (repositoryDurations r xs) = sum_list (repositoryDurations r ys)"
    using sum_list_map_mset [OF m, of id] by simp
  ultimately show "sessionRepositories xs r = sessionRepositories ys r"
    by (simp add: sessionRepositories_def)
qed

lemma aggregateBucket_mset:
  assumes "mset xs = mset ys"
  shows "aggregateBucket format (d, xs) = aggregateBucket format (d, ys)"
  using sessionRepositories_mset [OF assms] sum_list_map_mset [OF assms, of RawDurationMs]
  by (simp add: aggregateBucket_def totalLoop_sum)

text \<open>
  C8. Aggregating a permutation of the input sessions gives the same set of aggregated
  sessions, one per day in both, hence also the same multiset.
\<close>

theorem Aggregate_order_independent:
  assumes "mset ss' = mset ss"
  shows "set (Aggregate format ss') = set (Aggregate format ss)
       \<and> distinct (map Date (Aggregate format ss'))
       \<and> distinct (map Date (Aggregate format ss))
       \<and> mset (Aggregate format ss') = mset (Aggregate format ss)"
proof -
  have sets: "set ss' = set ss" using assms by (rule mset_eq_setD)
  have "aggregateBucket format (d, startedOn d ss') = aggregateBucket format (d, startedOn d ss)"
    for d
    by (rule aggregateBucket_mset) (simp add: startedOn_def assms)
  then have eq: "set (Aggregate format ss') = set (Aggregate format ss)"
    by (simp add: set_Aggregate sets)
  have d1: "distinct (Aggregate format ss')" and d2: "distinct (Aggregate format ss)"
    using distinct_Aggregate [of format ss'] distinct_Aggregate [of format ss]
    by (auto simp: distinct_map)
  from eq d1 d2 have "mset (Aggregate format ss') = mset (Aggregate format ss)"
    by (simp add: set_eq_iff_mset_eq_distinct)
  with eq show ?thesis by (simp add: distinct_Aggregate)
qed


theorem Aggregate_order_independent_witness:
  "mset (rev rawSessions) = mset rawSessions
   \<and> set (Aggregate testFormat (rev rawSessions)) = set (Aggregate testFormat rawSessions)
   \<and> map (\<lambda>a. (Date a, TotalTimeMs a)) (Aggregate testFormat (rev rawSessions))
       = [(0, 5100), (86400000, 7)]"
proof -
  have h: "mset (rev rawSessions) = mset rawSessions" by simp
  have "map (\<lambda>a. (Date a, TotalTimeMs a)) (Aggregate testFormat (rev rawSessions))
       = [(0, 5100), (86400000, 7)]"
    by (simp add: Aggregate_def groupByDay_def addToBucket_def aggregateBucket_def
        rawSessions_def rawSession_def truncate_Day_def)
  with Aggregate_order_independent [OF h, of testFormat] h show ?thesis by simp
qed

end
